theory Spec2Isabelle
  imports Complex_Main "HOL-Library.Sublist" "HOL-Library.Char_ord" "HOL-Library.List_Lexorder"
begin

section \<open>Strings\<close>

text \<open>
  Python strings are modelled as \<^typ>\<open>string\<close>. Case mapping and white space follow
  Python on ASCII text: \<open>str.lower\<close> maps \<open>A..Z\<close> to \<open>a..z\<close> and leaves
  every other character alone, and the white space of \<open>str.strip\<close> and of the regular
  expression \<open>\s\<close> is the tab, line feed, vertical tab, form feed, carriage return,
  the four separators \<open>0x1c..0x1f\<close> and the blank. Characters beyond ASCII are
  treated as caseless and as not being white space.
\<close>

definition lower_char :: "char \<Rightarrow> char" where
  "lower_char c =
     (if CHR ''A'' \<le> c \<and> c \<le> CHR ''Z'' then char_of (of_char c + (32::nat)) else c)"

definition lower :: "string \<Rightarrow> string" where
  "lower s = map lower_char s"

lemmas lower_eval = lower_def lower_char_def char_of_def bit_0

text \<open>\<open>tok in hay\<close> on Python strings: \<open>tok\<close> occurs as a contiguous piece of \<open>hay\<close>.\<close>

fun contains :: "string \<Rightarrow> string \<Rightarrow> bool" where
  "contains tok [] = (tok = [])"
| "contains tok (c # cs) = (prefix tok (c # cs) \<or> contains tok cs)"

section \<open>The query model (query.py)\<close>

record ParsedQuery =
  exact_filenames :: "string list"
  exact_stems :: "string list"
  and_extensions :: "string list"
  tokens :: "string list"
  case_sensitive :: bool

definition is_space :: "char \<Rightarrow> bool" where
  "is_space c = ((CHR 0x09 \<le> c \<and> c \<le> CHR 0x0D) \<or> (CHR 0x1C \<le> c \<and> c \<le> CHR 0x20))"

definition strip :: "string \<Rightarrow> string" where
  "strip s = rev (dropWhile is_space (rev (dropWhile is_space s)))"










definition TYPE_GROUPS :: "(string \<times> string list) list" where
  "TYPE_GROUPS =
    [(''image'', [''.png'', ''.jpg'', ''.jpeg'', ''.gif'', ''.bmp'', ''.tiff'', ''.tif'',
                  ''.webp'', ''.heic'', ''.svg'']),
     (''video'', [''.mp4'', ''.mkv'', ''.mov'', ''.avi'', ''.webm'', ''.wmv'', ''.m4v'']),
     (''audio'', [''.mp3'', ''.wav'', ''.flac'', ''.aac'', ''.ogg'', ''.m4a'']),
     (''doc'', [''.pdf'', ''.doc'', ''.docx'', ''.rtf'', ''.txt'', ''.md'', ''.rst'']),
     (''code'', [''.py'', ''.js'', ''.ts'', ''.tsx'', ''.jsx'', ''.java'', ''.c'', ''.cpp'',
                 ''.cs'', ''.go'', ''.rb'', ''.rs'', ''.php'', ''.sh'', ''.ps1'']),
     (''archive'', [''.zip'', ''.tar'', ''.gz'', ''.tgz'', ''.bz2'', ''.7z'', ''.rar'']),
     (''data'', [''.csv'', ''.tsv'', ''.json'', ''.jsonl'', ''.ndjson'', ''.parquet'',
                 ''.feather'', ''.arrow'', ''.orc'', ''.h5'', ''.hdf5'', ''.db'', ''.sqlite'',
                 ''.sqlite3'', ''.db3'', ''.dta'', ''.sav'']),
     (''sheet'', [''.xlsx'', ''.xls'', ''.ods'', ''.csv'', ''.tsv'']),
     (''notebook'', [''.ipynb'']),
     (''pdf'', [''.pdf''])]"


definition normalize_ext :: "string \<Rightarrow> string" where
  "normalize_ext e0 =
     (let e = lower (strip e0) in if \<not> prefix ''.'' e then ''.'' @ e else e)"

definition expand_type_to_exts :: "string \<Rightarrow> string list" where
  "expand_type_to_exts type_name =
     (case map_of TYPE_GROUPS (lower type_name) of Some exts \<Rightarrow> exts | None \<Rightarrow> [])"













section \<open>The matcher (search.py)\<close>

text \<open>
  \<open>_name_matches\<close>: the three names are case-normalised, then the extension filter
  is tested, then the exact filenames, the exact stems and the tokens, in this order.
\<close>

definition name_matches :: "string \<Rightarrow> string \<Rightarrow> string \<Rightarrow> ParsedQuery \<Rightarrow> bool" where
  "name_matches filename stem ext q =
     (let fn = (if case_sensitive q then filename else lower filename);
          st = (if case_sensitive q then stem else lower stem);
          ex = (if case_sensitive q then ext else lower ext)
      in if and_extensions q \<noteq> [] \<and> ex \<notin> set (and_extensions q) then False
         else if exact_filenames q \<noteq> [] \<and> fn \<in> set (exact_filenames q) then True
         else if exact_stems q \<noteq> [] \<and> st \<in> set (exact_stems q) then True
         else list_ex (\<lambda>tok. tok \<noteq> [] \<and> contains tok fn) (tokens q))"

text \<open>\<open>_content_matches\<close>.\<close>

definition content_matches :: "string \<Rightarrow> ParsedQuery \<Rightarrow> bool" where
  "content_matches text q =
     (if tokens q = [] then False
      else (let hay = (if case_sensitive q then text else lower text)
            in list_ex (\<lambda>tok. tok \<noteq> [] \<and> contains tok hay) (tokens q)))"

section \<open>Paths and the file system\<close>

text \<open>
  A path is the list of its components; \<open>name\<close>, \<open>stem\<close> and \<open>suffix\<close> are those of
  \<open>pathlib\<close>: the suffix starts at the last dot of the name, unless that dot is the
  first or the last character of the name.
\<close>

type_synonym path = "string list"

type_synonym bytes = "char list"

definition path_name :: "path \<Rightarrow> string" where
  "path_name p = (if p = [] then [] else last p)"

definition rfind :: "char \<Rightarrow> string \<Rightarrow> int" where
  "rfind c s =
     (if c \<in> set s then int (length s) - 1 - int (length (takeWhile (\<lambda>d. d \<noteq> c) (rev s)))
      else - 1)"

definition path_suffix :: "path \<Rightarrow> string" where
  "path_suffix p =
     (let name = path_name p; i = rfind CHR ''.'' name
      in if 0 < i \<and> i < int (length name) - 1 then drop (nat i) name else [])"

definition path_stem :: "path \<Rightarrow> string" where
  "path_stem p =
     (let name = path_name p; i = rfind CHR ''.'' name
      in if 0 < i \<and> i < int (length name) - 1 then take (nat i) name else name)"

fun path_str :: "path \<Rightarrow> string" where
  "path_str [] = ''.''"
| "path_str [c] = c"
| "path_str (c # d # ds) = c @ ''/'' @ path_str (d # ds)"

text \<open>\<open>str.casefold\<close>, on ASCII text.\<close>

definition casefold :: "string \<Rightarrow> string" where
  "casefold s = lower s"

text \<open>
  What the matcher and the coordinator ask of the file system. \<open>None\<close> stands for a
  raised exception: \<open>fs_stat\<close> is \<open>path.stat()\<close>, \<open>fs_open\<close> is opening the file in
  binary mode and reading it (the whole contents are returned, a read takes a prefix),
  \<open>fs_resolve\<close> is \<open>path.resolve()\<close>. \<open>fs_decode\<close> is the UTF-8 decoder with
  \<open>errors="ignore"\<close>, which never raises: the fallback of \<open>_read_text\<close> to Latin-1 is
  not reachable and has no counterpart here.
\<close>

record stat_result =
  st_dev :: int
  st_ino :: int
  st_size :: int

record filesystem =
  fs_stat :: "path \<Rightarrow> stat_result option"
  fs_open :: "path \<Rightarrow> bytes option"
  fs_resolve :: "path \<Rightarrow> path option"
  fs_decode :: "bytes \<Rightarrow> string"

text \<open>\<open>f.read(n)\<close>: at most \<open>n\<close> bytes, everything when \<open>n\<close> is negative.\<close>

definition py_read :: "bytes \<Rightarrow> int \<Rightarrow> bytes" where
  "py_read contents n = (if n < 0 then contents else take (nat n) contents)"

definition TEXT_EXTS :: "string list" where
  "TEXT_EXTS =
     [''.txt'', ''.md'', ''.rst'', ''.log'', ''.py'', ''.js'', ''.ts'', ''.tsx'', ''.jsx'',
      ''.json'', ''.yml'', ''.yaml'', ''.ini'', ''.cfg'', ''.conf'', ''.html'', ''.htm'',
      ''.css'', ''.xml'', ''.csv'', ''.tsv'', ''.ipynb'', ''.tex'']"

text \<open>\<open>is_probably_text\<close> (utils.py): a failure to open or read the sample gives \<open>False\<close>.\<close>

definition is_probably_text :: "filesystem \<Rightarrow> path \<Rightarrow> bool" where
  "is_probably_text fs p =
     (let ext = lower (path_suffix p)
      in if ext \<in> set TEXT_EXTS then True
         else (case fs_open fs p of
                 None \<Rightarrow> False
               | Some contents \<Rightarrow> CHR 0x00 \<notin> set (py_read contents 1024)))"

text \<open>\<open>_read_text\<close>: it has no handler of its own, so a failing \<open>stat\<close> or \<open>open\<close> propagates.\<close>

definition read_text :: "filesystem \<Rightarrow> path \<Rightarrow> int \<Rightarrow> string option" where
  "read_text fs p max_bytes =
     (case fs_stat fs p of
        None \<Rightarrow> None
      | Some st \<Rightarrow>
         (let to_read = min (st_size st) max_bytes
          in case fs_open fs p of
               None \<Rightarrow> None
             | Some contents \<Rightarrow> Some (fs_decode fs (py_read contents to_read))))"

section \<open>The matcher (search.py), continued\<close>

datatype MatchResult = MatchResult (result_path: path)

text \<open>
  The body of the \<open>try\<close> block of \<open>_evaluate_path\<close>: \<open>Some True\<close> when it returns a
  match, \<open>Some False\<close> when it falls through, \<open>None\<close> when it raises.
\<close>

definition content_probe :: "filesystem \<Rightarrow> path \<Rightarrow> ParsedQuery \<Rightarrow> string \<Rightarrow> int \<Rightarrow> bool option" where
  "content_probe fs p q ext max_bytes =
     (if is_probably_text fs p
      then (case fs_stat fs p of
              None \<Rightarrow> None
            | Some st \<Rightarrow>
               if st_size st \<le> max_bytes
               then (case read_text fs p max_bytes of
                       None \<Rightarrow> None
                     | Some text \<Rightarrow>
                        Some (content_matches text q
                              \<and> (and_extensions q = [] \<or> ext \<in> set (and_extensions q))))
               else Some False)
      else Some False)"

definition evaluate_path ::
    "filesystem \<Rightarrow> path \<Rightarrow> ParsedQuery \<Rightarrow> bool \<Rightarrow> bool \<Rightarrow> int \<Rightarrow> bool \<Rightarrow> MatchResult option" where
  "evaluate_path fs p q scan_content content_only max_bytes ext_match_or =
     (let filename = path_name p; stem = path_stem p; ext = lower (path_suffix p)
      in if ext_match_or \<and> and_extensions q \<noteq> [] \<and> ext \<in> set (and_extensions q)
         then Some (MatchResult p)
         else if \<not> content_only \<and> name_matches filename stem ext q
         then Some (MatchResult p)
         else if scan_content
         then (case content_probe fs p q ext max_bytes of
                 Some True \<Rightarrow> Some (MatchResult p)
               | Some False \<Rightarrow> None
               | None \<Rightarrow> None)
         else None)"

text \<open>
  \<open>_file_id\<close>: the pair of device and inode, else the resolved path case-folded, else
  the path as it is; the last two are both one-element tuples of a string.
\<close>

datatype FileIdentity = DevIno int int | PathKey string

definition file_id :: "filesystem \<Rightarrow> path \<Rightarrow> FileIdentity" where
  "file_id fs p =
     (case fs_stat fs p of
        Some st \<Rightarrow> DevIno (st_dev st) (st_ino st)
      | None \<Rightarrow>
         (case fs_resolve fs p of
            Some rp \<Rightarrow> PathKey (casefold (path_str rp))
          | None \<Rightarrow> PathKey (path_str p)))"

section \<open>Traversal (utils.py)\<close>

text \<open>
  A directory entry as \<open>os.scandir\<close> gives it: its name, the answers of \<open>is_dir\<close> and
  \<open>is_file\<close> for either value of \<open>follow_symlinks\<close> and of \<open>is_symlink\<close> (\<open>None\<close> when the
  call raises), and what \<open>os.scandir\<close> gives on the entry itself (\<open>None\<close> when it raises,
  as on a directory that cannot be listed).
\<close>

datatype dir_entry =
  DirEntry (entry_name: string) (entry_is_dir: "bool \<Rightarrow> bool option")
    (entry_is_file: "bool \<Rightarrow> bool option") (entry_is_symlink: "bool option")
    (entry_scandir: "dir_entry list option")

record root =
  root_path :: path
  root_exists :: bool
  root_scandir :: "dir_entry list option"

type_synonym frame = "path \<times> dir_entry list option \<times> int"

text \<open>
  The body of the \<open>for entry in it\<close> loop of \<open>_walk_scandir\<close>: what is done with one
  entry found at depth \<open>depth\<close>. An entry whose \<open>is_dir\<close>, \<open>is_file\<close> or \<open>is_symlink\<close>
  raises is skipped (\<open>except Exception: continue\<close>).
\<close>

datatype entry_action = Skip | Push | Yield

definition classify_entry ::
    "bool \<Rightarrow> int option \<Rightarrow> string set \<Rightarrow> int \<Rightarrow> dir_entry \<Rightarrow> entry_action" where
  "classify_entry follow max_depth excl depth e =
     (case entry_is_dir e follow of
        None \<Rightarrow> Skip
      | Some is_d \<Rightarrow>
         if is_d
         then (if entry_name e \<in> excl then Skip
               else (case max_depth of
                       None \<Rightarrow> Push
                     | Some m \<Rightarrow> if depth + 1 \<le> m then Push else Skip))
         else (case entry_is_file e follow of
                 None \<Rightarrow> Skip
               | Some is_f \<Rightarrow>
                  if is_f then Yield
                  else if follow
                  then (case entry_is_symlink e of
                          None \<Rightarrow> Skip
                        | Some is_l \<Rightarrow> if is_l then Yield else Skip)
                  else Skip))"

text \<open>
  The loop on one directory: the files it yields and the directories it pushes, both in
  the order of the entries.
\<close>

fun scan_entries ::
    "bool \<Rightarrow> int option \<Rightarrow> string set \<Rightarrow> path \<Rightarrow> int \<Rightarrow> dir_entry list \<Rightarrow> path list \<times> frame list" where
  "scan_entries follow max_depth excl cur depth [] = ([], [])"
| "scan_entries follow max_depth excl cur depth (e # es) =
     (case scan_entries follow max_depth excl cur depth es of
        (ys, ps) \<Rightarrow>
          (case classify_entry follow max_depth excl depth e of
             Skip \<Rightarrow> (ys, ps)
           | Push \<Rightarrow> (ys, (cur @ [entry_name e], entry_scandir e, depth + 1) # ps)
           | Yield \<Rightarrow> ((cur @ [entry_name e]) # ys, ps)))"

fun entry_weight :: "dir_entry \<Rightarrow> nat" where
  "entry_weight (DirEntry n d f s l) =
     Suc (case l of None \<Rightarrow> 0 | Some es \<Rightarrow> sum_list (map entry_weight es))"

definition frame_weight :: "frame \<Rightarrow> nat" where
  "frame_weight fr =
     Suc (case fst (snd fr) of None \<Rightarrow> 0 | Some es \<Rightarrow> sum_list (map entry_weight es))"

text \<open>
  \<open>_walk_scandir\<close>: the stack of directories still to visit, its top first. A directory
  that cannot be listed is dropped; the directories pushed while listing one are visited
  last pushed first.
\<close>

function walk_scandir :: "bool \<Rightarrow> int option \<Rightarrow> string set \<Rightarrow> frame list \<Rightarrow> path list" where
  "walk_scandir follow max_depth excl [] = []"
| "walk_scandir follow max_depth excl ((cur, listing, depth) # stack) =
     (case listing of
        None \<Rightarrow> walk_scandir follow max_depth excl stack
      | Some entries \<Rightarrow>
         fst (scan_entries follow max_depth excl cur depth entries)
         @ walk_scandir follow max_depth excl
             (rev (snd (scan_entries follow max_depth excl cur depth entries)) @ stack))"
  by pat_completeness auto
termination
proof (relation "measure (\<lambda>(follow, max_depth, excl, stack). sum_list (map frame_weight stack))",
    goal_cases)
  case 1
  show ?case by simp
next
  case (2 follow max_depth excl cur listing depth stack)
  then show ?case by (simp add: frame_weight_def)
next
  case (3 follow max_depth excl cur listing depth stack entries)
  have pushed: "sum_list (map frame_weight (snd (scan_entries follow max_depth excl cur depth es)))
                  \<le> sum_list (map entry_weight es)" for es
  proof (induction es)
    case Nil
    show ?case by simp
  next
    case (Cons e es)
    obtain ys ps where r: "scan_entries follow max_depth excl cur depth es = (ys, ps)"
      by (cases "scan_entries follow max_depth excl cur depth es")
    have ih: "sum_list (map frame_weight ps) \<le> sum_list (map entry_weight es)"
      using Cons.IH r by simp
    have w: "frame_weight (cur @ [entry_name e], entry_scandir e, depth + 1) = entry_weight e"
      by (cases e) (simp add: frame_weight_def)
    show ?case
      using ih w by (cases "classify_entry follow max_depth excl depth e") (simp_all add: r)
  qed
  have "sum_list (map frame_weight (rev (snd (scan_entries follow max_depth excl cur depth entries))))
          \<le> sum_list (map entry_weight entries)"
    using pushed [of entries] by (simp add: rev_map [symmetric])
  then show ?case
    using 3 by (simp add: frame_weight_def)
qed

text \<open>\<open>iter_files\<close>: a root that does not exist contributes nothing.\<close>

fun iter_files :: "root list \<Rightarrow> bool \<Rightarrow> int option \<Rightarrow> string set \<Rightarrow> path list" where
  "iter_files [] follow max_depth excl = []"
| "iter_files (r # rs) follow max_depth excl =
     (if root_exists r
      then walk_scandir follow max_depth excl [(root_path r, root_scandir r, 0)]
           @ iter_files rs follow max_depth excl
      else iter_files rs follow max_depth excl)"

section \<open>The coordinator (search.py)\<close>

text \<open>
  The keyword arguments of \<open>search\<close>. \<open>stream_callback\<close> tells whether a callback was
  supplied; the paths handed to it are recorded in the coordinator.
\<close>

record options =
  scan_content :: bool
  content_only :: bool
  follow_symlinks :: bool
  max_content_size_mb :: int
  workers :: int
  limit :: int
  max_depth :: "int option"
  exclude_dirs :: "string list"
  stream_callback :: bool
  ext_match_or :: bool
  idle_timeout_sec :: "real option"

record SearchStats =
  emitted :: int
  wall_time_sec :: real
  idle_time_sec :: real
  stopped_reason :: string

text \<open>
  The local state of one call of \<open>search\<close>. \<open>clock_reads\<close> counts the calls of
  \<open>time.monotonic()\<close> made so far: the clock is a function \<open>clk\<close> from that count to the
  reading.
\<close>

record coordinator =
  results :: "MatchResult list"
  streamed :: "path list"
  seen_ids :: "FileIdentity set"
  emitted_count :: int
  stop_reason :: string
  stop_event :: bool
  idle_deadline :: "real option"
  last_emit_time :: "real option"
  clock_reads :: nat

definition monotonic :: "(nat \<Rightarrow> real) \<Rightarrow> coordinator \<Rightarrow> real \<times> coordinator" where
  "monotonic clk c = (clk (clock_reads c), c\<lparr>clock_reads := Suc (clock_reads c)\<rparr>)"

text \<open>\<open>idle_timeout_sec and idle_timeout_sec > 0\<close>.\<close>

definition idle_configured :: "options \<Rightarrow> bool" where
  "idle_configured opts =
     (case idle_timeout_sec opts of None \<Rightarrow> False | Some t \<Rightarrow> t \<noteq> 0 \<and> t > 0)"

definition timed_out :: "(nat \<Rightarrow> real) \<Rightarrow> coordinator \<Rightarrow> bool \<times> coordinator" where
  "timed_out clk c =
     (case idle_deadline c of
        None \<Rightarrow> (False, c)
      | Some d \<Rightarrow> (let (now, c1) = monotonic clk c in (now \<ge> d, c1)))"

definition reset_idle_timer :: "(nat \<Rightarrow> real) \<Rightarrow> options \<Rightarrow> coordinator \<Rightarrow> coordinator" where
  "reset_idle_timer clk opts c =
     (let (now, c1) = monotonic clk c;
          c2 = c1\<lparr>last_emit_time := Some now\<rparr>
      in if idle_configured opts
         then c2\<lparr>idle_deadline := Some (now + the (idle_timeout_sec opts))\<rparr>
         else c2)"

definition maybe_emit ::
    "filesystem \<Rightarrow> (nat \<Rightarrow> real) \<Rightarrow> options \<Rightarrow> path \<Rightarrow> coordinator \<Rightarrow> bool \<times> coordinator" where
  "maybe_emit fs clk opts p c =
     (let fid = file_id fs p
      in if fid \<in> seen_ids c then (True, c)
         else (let c1 = c\<lparr>seen_ids := insert fid (seen_ids c)\<rparr>;
                   c2 = (if stream_callback opts
                         then c1\<lparr>streamed := streamed c1 @ [p]\<rparr>
                         else c1\<lparr>results := results c1 @ [MatchResult p]\<rparr>);
                   c3 = c2\<lparr>emitted_count := emitted_count c2 + 1\<rparr>;
                   c4 = reset_idle_timer clk opts c3
               in if emitted_count c4 \<ge> max 1 (limit opts)
                  then (False, c4\<lparr>stop_reason := ''limit'', stop_event := True\<rparr>)
                  else (True, c4)))"

text \<open>\<open>if stop_event.is_set() or timed_out()\<close>: the clock is read only when the event is not set.\<close>

definition stop_or_timed_out :: "(nat \<Rightarrow> real) \<Rightarrow> coordinator \<Rightarrow> bool \<times> coordinator" where
  "stop_or_timed_out clk c = (if stop_event c then (True, c) else timed_out clk c)"

text \<open>\<open>if timed_out(): stopped_reason = "idle_timeout"\<close>.\<close>

definition note_timeout :: "(nat \<Rightarrow> real) \<Rightarrow> coordinator \<Rightarrow> coordinator" where
  "note_timeout clk c =
     (let (t, c1) = timed_out clk c
      in if t then c1\<lparr>stop_reason := ''idle_timeout''\<rparr> else c1)"

text \<open>The fast path: the loop of \<open>search\<close> taken when \<open>scan_content\<close> is off.\<close>

fun fast_loop ::
    "filesystem \<Rightarrow> (nat \<Rightarrow> real) \<Rightarrow> ParsedQuery \<Rightarrow> options \<Rightarrow> int \<Rightarrow> path list
       \<Rightarrow> coordinator \<Rightarrow> coordinator" where
  "fast_loop fs clk q opts max_bytes [] c = c"
| "fast_loop fs clk q opts max_bytes (p # ps) c =
     (let (stop, c1) = stop_or_timed_out clk c
      in if stop then note_timeout clk c1
         else (case evaluate_path fs p q False (content_only opts) max_bytes (ext_match_or opts) of
                 None \<Rightarrow> fast_loop fs clk q opts max_bytes ps c1
               | Some r \<Rightarrow>
                  (let (go, c2) = maybe_emit fs clk opts (result_path r) c1
                   in if go then fast_loop fs clk q opts max_bytes ps c2 else c2)))"

text \<open>
  The content scan. A future is represented by the result its worker computes;
  \<open>as_completed\<close> hands the futures of a batch over in the order they complete, which is
  \<open>sched k\<close> of the batch for the \<open>k\<close>-th call.
\<close>

type_synonym future = "MatchResult option"

text \<open>The loop over \<open>as_completed(futures)\<close> inside the submission loop.\<close>

fun drain_batch ::
    "filesystem \<Rightarrow> (nat \<Rightarrow> real) \<Rightarrow> options \<Rightarrow> future list \<Rightarrow> coordinator \<Rightarrow> coordinator" where
  "drain_batch fs clk opts [] c = c"
| "drain_batch fs clk opts (fut # futs) c =
     (if stop_event c \<or> stop_reason c = ''idle_timeout'' then c
      else (case fut of
              None \<Rightarrow> drain_batch fs clk opts futs c
            | Some r \<Rightarrow>
               (let (go, c1) = maybe_emit fs clk opts (result_path r) c
                in if go then drain_batch fs clk opts futs c1 else c1)))"

text \<open>The loop over \<open>as_completed(futures)\<close> after the submission loop.\<close>

fun drain_final ::
    "filesystem \<Rightarrow> (nat \<Rightarrow> real) \<Rightarrow> options \<Rightarrow> future list \<Rightarrow> coordinator \<Rightarrow> coordinator" where
  "drain_final fs clk opts [] c = c"
| "drain_final fs clk opts (fut # futs) c =
     (if stop_event c then c
      else (case fut of
              None \<Rightarrow> drain_final fs clk opts futs c
            | Some r \<Rightarrow>
               (let (go, c1) = maybe_emit fs clk opts (result_path r) c
                in if go then drain_final fs clk opts futs c1 else c1)))"

text \<open>
  The submission loop: the futures not yet drained, the number of calls of
  \<open>as_completed\<close> made, and the coordinator.
\<close>

fun pooled_loop ::
    "filesystem \<Rightarrow> (nat \<Rightarrow> real) \<Rightarrow> (nat \<Rightarrow> future list \<Rightarrow> future list) \<Rightarrow> ParsedQuery \<Rightarrow> options
       \<Rightarrow> int \<Rightarrow> path list \<Rightarrow> future list \<Rightarrow> nat \<Rightarrow> coordinator
       \<Rightarrow> future list \<times> nat \<times> coordinator" where
  "pooled_loop fs clk sched q opts max_bytes [] futures k c = (futures, k, c)"
| "pooled_loop fs clk sched q opts max_bytes (p # ps) futures k c =
     (let (stop, c1) = stop_or_timed_out clk c
      in if stop then (futures, k, note_timeout clk c1)
         else (let futures1 = futures
                       @ [evaluate_path fs p q True (content_only opts) max_bytes (ext_match_or opts)];
                   (full, c2) = (if length futures1 \<ge> 2048 then (True, c1) else timed_out clk c1)
               in if full
                  then (let c3 = note_timeout clk c2;
                            c4 = drain_batch fs clk opts (sched k futures1) c3
                        in if stop_event c4 \<or> stop_reason c4 = ''idle_timeout''
                           then ([], Suc k, c4)
                           else pooled_loop fs clk sched q opts max_bytes ps [] (Suc k) c4)
                  else pooled_loop fs clk sched q opts max_bytes ps futures1 k c2))"

definition initial :: coordinator where
  "initial =
     \<lparr>results = [], streamed = [], seen_ids = {}, emitted_count = 0,
      stop_reason = ''complete'', stop_event = False, idle_deadline = None,
      last_emit_time = None, clock_reads = 0\<rparr>"

text \<open>
  \<open>search\<close> up to the second reading of \<open>end\<close>: the coordinator when the loops are left.
\<close>

definition coordinate ::
    "filesystem \<Rightarrow> (nat \<Rightarrow> real) \<Rightarrow> (nat \<Rightarrow> future list \<Rightarrow> future list) \<Rightarrow> root list \<Rightarrow> ParsedQuery
       \<Rightarrow> options \<Rightarrow> coordinator" where
  "coordinate fs clk sched roots q opts =
     (let (start, c0) = monotonic clk initial;
          max_bytes = max_content_size_mb opts * 1024 * 1024;
          c1 = c0\<lparr>idle_deadline :=
                    (if idle_configured opts then Some (start + the (idle_timeout_sec opts))
                     else None)\<rparr>;
          files = iter_files roots (follow_symlinks opts) (max_depth opts) (set (exclude_dirs opts))
      in if \<not> scan_content opts then fast_loop fs clk q opts max_bytes files c1
         else (let (futures, k, c2) = pooled_loop fs clk sched q opts max_bytes files [] 0 c1
               in drain_final fs clk opts (sched k futures) c2))"

text \<open>\<open>last_emit_time or start\<close>: a reading of \<open>0.0\<close> counts as absent.\<close>

definition last_emit_or :: "real option \<Rightarrow> real \<Rightarrow> real" where
  "last_emit_or t start = (case t of None \<Rightarrow> start | Some x \<Rightarrow> if x = 0 then start else x)"

record outcome =
  out_results :: "MatchResult list"
  out_stats :: SearchStats
  out_streamed :: "path list"

text \<open>
  \<open>search\<close>: the returned results and statistics, and the paths the callback was
  called with, in order.
\<close>

definition search ::
    "filesystem \<Rightarrow> (nat \<Rightarrow> real) \<Rightarrow> (nat \<Rightarrow> future list \<Rightarrow> future list) \<Rightarrow> root list \<Rightarrow> ParsedQuery
       \<Rightarrow> options \<Rightarrow> outcome" where
  "search fs clk sched roots q opts =
     (let start = clk 0;
          c = coordinate fs clk sched roots q opts;
          end_time = clk (clock_reads c);
          idle_gap = (if stop_reason c = ''idle_timeout''
                      then max 0 (end_time - last_emit_or (last_emit_time c) start) else 0)
      in \<lparr>out_results = results c,
          out_stats = \<lparr>emitted = emitted_count c, wall_time_sec = end_time - start,
                       idle_time_sec = idle_gap, stopped_reason = stop_reason c\<rparr>,
          out_streamed = streamed c\<rparr>)"

section \<open>Sample data\<close>

text \<open>
  A small file system for the concrete instances: a root that does not exist, and a root
  \<open>r\<close> with a binary file, a subdirectory with a small and a large text file, a
  directory that cannot be listed, an entry whose type cannot be read, a PDF that cannot
  be read, and a hard link \<open>link.txt\<close> to \<open>sub/notes.txt\<close>.
\<close>

definition sample_file :: "string \<Rightarrow> dir_entry" where
  "sample_file n = DirEntry n (\<lambda>follow. Some False) (\<lambda>follow. Some True) (Some False) None"

definition sample_dir :: "string \<Rightarrow> dir_entry list option \<Rightarrow> dir_entry" where
  "sample_dir n listing = DirEntry n (\<lambda>follow. Some True) (\<lambda>follow. Some False) (Some False) listing"

definition sample_broken :: "string \<Rightarrow> dir_entry" where
  "sample_broken n = DirEntry n (\<lambda>follow. None) (\<lambda>follow. None) None None"

definition sample_roots :: "root list" where
  "sample_roots =
     [\<lparr>root_path = [''gone''], root_exists = False,
       root_scandir = Some [sample_file ''ghost.txt'']\<rparr>,
      \<lparr>root_path = [''r''], root_exists = True,
       root_scandir = Some
         [sample_file ''a.jpg'',
          sample_dir ''sub'' (Some [sample_file ''notes.txt'', sample_file ''big.txt'']),
          sample_dir ''locked'' None,
          sample_broken ''odd'',
          sample_file ''My Invoice.pdf'',
          sample_file ''link.txt'']\<rparr>]"

definition sample_fs :: filesystem where
  "sample_fs =
     \<lparr>fs_stat = (\<lambda>p.
         if p = [''r'', ''a.jpg''] then Some \<lparr>st_dev = 1, st_ino = 10, st_size = 2\<rparr>
         else if p = [''r'', ''sub'', ''notes.txt''] then Some \<lparr>st_dev = 1, st_ino = 11, st_size = 15\<rparr>
         else if p = [''r'', ''link.txt''] then Some \<lparr>st_dev = 1, st_ino = 11, st_size = 15\<rparr>
         else if p = [''r'', ''sub'', ''big.txt''] then Some \<lparr>st_dev = 1, st_ino = 12, st_size = 2000000\<rparr>
         else None),
      fs_open = (\<lambda>p.
         if p = [''r'', ''a.jpg''] then Some [CHR 0x00, CHR ''i'']
         else if p = [''r'', ''sub'', ''notes.txt''] then Some ''an Invoice here''
         else if p = [''r'', ''link.txt''] then Some ''an Invoice here''
         else if p = [''r'', ''sub'', ''big.txt''] then Some ''invoice''
         else None),
      fs_resolve = (\<lambda>p. if p = [''r'', ''My Invoice.pdf''] then Some p else None),
      fs_decode = (\<lambda>b. b)\<rparr>"

definition sample_query :: ParsedQuery where
  "sample_query =
     \<lparr>exact_filenames = [], exact_stems = [], and_extensions = [], tokens = [''invoice''],
      case_sensitive = False\<rparr>"

definition dot_query :: ParsedQuery where
  "dot_query =
     \<lparr>exact_filenames = [], exact_stems = [], and_extensions = [], tokens = [''.''],
      case_sensitive = False\<rparr>"

definition sample_options :: options where
  "sample_options =
     \<lparr>scan_content = True, content_only = False, follow_symlinks = False,
      max_content_size_mb = 1, workers = 8, limit = 200, max_depth = None, exclude_dirs = [],
      stream_callback = False, ext_match_or = False, idle_timeout_sec = None\<rparr>"



section \<open>Predicates on the coordinator\<close>

text \<open>
  \<open>emitted_paths\<close> are the paths emitted so far, buffered or handed to the callback.
  \<open>coord_inv\<close> is what every state of the coordinator satisfies between two steps: the
  counter, the set of seen identities and the emitted paths agree, no identity was emitted
  twice, only one of the two channels is used, the stop event is set exactly when the
  limit was reached, no idle deadline exists unless one is configured, in which case it is
  the last emission time (the start when nothing was emitted) plus the timeout, and the
  last emission time is a reading of the clock. \<open>batch_full\<close> is the test
  \<open>len(futures) >= 2048 or timed_out()\<close>; \<open>to_stream\<close> moves the buffered results to the
  callback's record.
\<close>

definition emitted_paths :: "coordinator \<Rightarrow> path list" where
  "emitted_paths c = map result_path (results c) @ streamed c"

definition coord_inv :: "filesystem \<Rightarrow> (nat \<Rightarrow> real) \<Rightarrow> options \<Rightarrow> coordinator \<Rightarrow> bool" where
  "coord_inv fs clk opts c \<longleftrightarrow>
     emitted_count c = int (length (emitted_paths c))
     \<and> seen_ids c = file_id fs ` set (emitted_paths c)
     \<and> distinct (map (file_id fs) (emitted_paths c))
     \<and> (if stream_callback opts then results c = [] else streamed c = [])
     \<and> (stop_event c \<longleftrightarrow> stop_reason c = ''limit'')
     \<and> (if stop_event c then emitted_count c = max 1 (limit opts)
         else emitted_count c < max 1 (limit opts))
     \<and> (idle_configured opts \<or> (idle_deadline c = None \<and> stop_reason c \<noteq> ''idle_timeout''))
     \<and> (\<not> idle_configured opts
         \<or> idle_deadline c
             = Some ((case last_emit_time c of None \<Rightarrow> clk 0 | Some t \<Rightarrow> t)
                     + the (idle_timeout_sec opts)))
     \<and> 0 < clock_reads c
     \<and> (case last_emit_time c of
           None \<Rightarrow> True
         | Some t \<Rightarrow> \<exists>j. 0 < j \<and> j < clock_reads c \<and> t = clk j)"

definition batch_full :: "(nat \<Rightarrow> real) \<Rightarrow> future list \<Rightarrow> coordinator \<Rightarrow> bool \<times> coordinator" where
  "batch_full clk futures c = (if length futures \<ge> 2048 then (True, c) else timed_out clk c)"

definition to_stream :: "coordinator \<Rightarrow> coordinator" where
  "to_stream c = c\<lparr>results := [], streamed := map result_path (results c)\<rparr>"

text \<open>
  \<open>future_ids\<close> are the identities of the matches a list of futures holds. \<open>eligible\<close>
  are the candidates of a call that the matcher accepts, in traversal order.
\<close>

definition future_ids :: "filesystem \<Rightarrow> future list \<Rightarrow> FileIdentity set" where
  "future_ids fs futs = (\<lambda>r. file_id fs (result_path r)) ` {r. Some r \<in> set futs}"

definition eligible :: "filesystem \<Rightarrow> root list \<Rightarrow> ParsedQuery \<Rightarrow> options \<Rightarrow> path list" where
  "eligible fs roots q opts =
     filter (\<lambda>p. evaluate_path fs p q (scan_content opts) (content_only opts)
                   (max_content_size_mb opts * 1024 * 1024) (ext_match_or opts) \<noteq> None)
       (iter_files roots (follow_symlinks opts) (max_depth opts) (set (exclude_dirs opts)))"

section \<open>Predicates on the collected items\<close>




section \<open>Case mapping\<close>

lemma char_eq_code: "c = d \<longleftrightarrow> (of_char c :: nat) = of_char d"
  by simp

lemma code_lower_char:
  "(of_char (lower_char c) :: nat)
     = (if 65 \<le> (of_char c :: nat) \<and> (of_char c :: nat) \<le> 90 then of_char c + 32 else of_char c)"
  by (simp add: lower_char_def less_eq_char_def)

lemma lower_char_idem: "lower_char (lower_char c) = lower_char c"
  by (simp add: char_eq_code code_lower_char)

lemma lower_idem: "lower (lower s) = lower s"
  by (simp add: lower_def lower_char_idem)



lemma is_space_lower_char: "is_space (lower_char c) = is_space c"
  by (simp add: is_space_def less_eq_char_def code_lower_char)



lemma dropWhile_space_lower:
  "dropWhile is_space (lower xs) = lower (dropWhile is_space xs)"
  by (induction xs) (simp_all add: lower_def is_space_lower_char)

lemma lower_rev: "lower (rev xs) = rev (lower xs)"
  by (simp add: lower_def rev_map)

lemma strip_lower: "strip (lower s) = lower (strip s)"
  by (simp add: strip_def dropWhile_space_lower flip: lower_rev)













lemma normalize_ext_lower: "normalize_ext (lower e) = normalize_ext e"
  by (simp add: normalize_ext_def strip_lower lower_idem)



lemma expand_type_lower: "expand_type_to_exts (lower g) = expand_type_to_exts g"
  by (simp add: expand_type_to_exts_def lower_idem)

section \<open>Lemmas on the parser\<close>



lemma fold_invariant:
  assumes "\<forall>x \<in> set xs. Q x" and "P a" and "\<And>x a. Q x \<Longrightarrow> P a \<Longrightarrow> P (f x a)"
  shows "P (fold f xs a)"
  using assms by (induction xs arbitrary: a) auto

subsection \<open>dedup\<close>









subsection \<open>Pieces of the input\<close>






































section \<open>The extension filter of the name matcher\<close>

text \<open>
  C1, as the specification states it: with a non-empty \<open>and_extensions\<close>, a candidate
  whose file name equals an exact filename is accepted by the name matcher whatever its
  extension. The code tests the extension filter first: \<open>notes.md\<close> is rejected by
  the query with exact filename \<open>notes.md\<close> and extension filter \<open>.txt\<close>.
\<close>

theorem name_matches_exact_gated_counterexample:
  "''notes.md'' \<in> set [''notes.md''] \<and> ''notes'' \<in> set [''notes'']
   \<and> \<not> name_matches ''notes.md'' ''notes'' ''.md''
         \<lparr>exact_filenames = [''notes.md''], exact_stems = [''notes''],
          and_extensions = [''.txt''], tokens = [], case_sensitive = False\<rparr>"
  by (simp add: name_matches_def Let_def lower_eval)

text \<open>
  C1, amended: the extension filter of the name matcher gates the exact filename and the
  exact stem as it gates the tokens. The name matcher accepts a candidate exactly when
  \<open>and_extensions\<close> is empty or holds the (case-normalised) extension, and moreover the
  file name equals an exact filename, or the stem equals an exact stem, or a non-empty
  token occurs in the file name.
\<close>

theorem name_matches_iff:
  "name_matches filename stem ext q \<longleftrightarrow>
     (and_extensions q = []
        \<or> (if case_sensitive q then ext else lower ext) \<in> set (and_extensions q))
     \<and> ((if case_sensitive q then filename else lower filename) \<in> set (exact_filenames q)
        \<or> (if case_sensitive q then stem else lower stem) \<in> set (exact_stems q)
        \<or> (\<exists>tok \<in> set (tokens q). tok \<noteq> []
              \<and> contains tok (if case_sensitive q then filename else lower filename)))"
  by (auto simp: name_matches_def Let_def list_ex_iff)

theorem name_matches_iff_witness:
  "name_matches ''Notes.TXT'' ''Notes'' ''.txt''
     \<lparr>exact_filenames = [], exact_stems = [''notes''], and_extensions = [''.txt''],
      tokens = [''zzz''], case_sensitive = False\<rparr>
   \<and> \<not> name_matches ''Notes.md'' ''Notes'' ''.md''
     \<lparr>exact_filenames = [], exact_stems = [''notes''], and_extensions = [''.txt''],
      tokens = [''zzz''], case_sensitive = False\<rparr>"
  using name_matches_iff [of "''Notes.TXT''" "''Notes''" "''.txt''"
      "\<lparr>exact_filenames = [], exact_stems = [''notes''], and_extensions = [''.txt''],
        tokens = [''zzz''], case_sensitive = False\<rparr>"]
    name_matches_iff [of "''Notes.md''" "''Notes''" "''.md''"
      "\<lparr>exact_filenames = [], exact_stems = [''notes''], and_extensions = [''.txt''],
        tokens = [''zzz''], case_sensitive = False\<rparr>"]
  by (simp add: lower_eval)


section \<open>Quoted terms\<close>




section \<open>Normalisation of the parsed query\<close>



section \<open>Content matching\<close>

lemma is_probably_text_iff:
  "is_probably_text fs p \<longleftrightarrow>
     (lower (path_suffix p) \<in> set TEXT_EXTS
      \<or> (\<exists>contents. fs_open fs p = Some contents \<and> CHR 0x00 \<notin> set (take 1024 contents)))"
  by (auto simp: is_probably_text_def Let_def py_read_def split: option.splits)

lemma content_probe_True:
  "content_probe fs p q ext max_bytes = Some True \<Longrightarrow>
     is_probably_text fs p \<and> (\<exists>st. fs_stat fs p = Some st \<and> st_size st \<le> max_bytes)
     \<and> fs_open fs p \<noteq> None"
  by (auto simp: content_probe_def read_text_def Let_def split: if_splits option.splits)

lemma evaluate_path_no_content:
  assumes "content_probe fs p q (lower (path_suffix p)) max_bytes \<noteq> Some True"
  shows "evaluate_path fs p q True co max_bytes eo
           = evaluate_path fs p q False co max_bytes eo"
  using assms by (auto simp: evaluate_path_def Let_def split: option.splits bool.splits)

text \<open>
  C6: with \<open>scan_content\<close> enabled, a file is "probably text" exactly when its extension
  is on the allowlist or the first 1024 bytes read from it hold no null byte; unless it is
  probably text and its size is at most \<open>max_content_size_mb * 1024 * 1024\<close>, the
  evaluation gives what it gives with \<open>scan_content\<close> disabled; a \<open>.txt\<close> file above the
  cap is accepted only by the extension override or by its name; and a match that the
  evaluation without content scanning does not give comes from a file that is probably
  text, within the cap, whose decoded contents hold a token.
\<close>

theorem content_match_needs_text_within_cap:
  "(is_probably_text fs p \<longleftrightarrow>
      (lower (path_suffix p) \<in> set TEXT_EXTS
       \<or> (\<exists>contents. fs_open fs p = Some contents \<and> CHR 0x00 \<notin> set (take 1024 contents))))
   \<and> (\<not> (is_probably_text fs p \<and> (\<exists>st. fs_stat fs p = Some st \<and> st_size st \<le> mb * 1024 * 1024))
        \<longrightarrow> evaluate_path fs p q True co (mb * 1024 * 1024) eo
              = evaluate_path fs p q False co (mb * 1024 * 1024) eo)
   \<and> (lower (path_suffix p) = ''.txt'' \<and> fs_stat fs p = Some st \<and> mb * 1024 * 1024 < st_size st
        \<longrightarrow> evaluate_path fs p q True co (mb * 1024 * 1024) eo
              = (if (eo \<and> and_extensions q \<noteq> [] \<and> ''.txt'' \<in> set (and_extensions q))
                    \<or> (\<not> co \<and> name_matches (path_name p) (path_stem p) ''.txt'' q)
                 then Some (MatchResult p) else None))
   \<and> (evaluate_path fs p q True co (mb * 1024 * 1024) eo = Some r
        \<and> evaluate_path fs p q False co (mb * 1024 * 1024) eo = None
        \<longrightarrow> is_probably_text fs p
            \<and> (\<exists>st contents. fs_stat fs p = Some st \<and> st_size st \<le> mb * 1024 * 1024
                  \<and> fs_open fs p = Some contents
                  \<and> content_matches (fs_decode fs (py_read contents (st_size st))) q)
            \<and> (and_extensions q = [] \<or> lower (path_suffix p) \<in> set (and_extensions q)))"
proof -
  let ?cap = "mb * 1024 * 1024"
  have a: "\<not> (is_probably_text fs p \<and> (\<exists>st. fs_stat fs p = Some st \<and> st_size st \<le> ?cap))
        \<Longrightarrow> evaluate_path fs p q True co ?cap eo
              = evaluate_path fs p q False co ?cap eo"
    using content_probe_True [of fs p q "lower (path_suffix p)" ?cap]
    by (intro evaluate_path_no_content) blast
  have b: "evaluate_path fs p q True co ?cap eo
              = (if (eo \<and> and_extensions q \<noteq> [] \<and> ''.txt'' \<in> set (and_extensions q))
                    \<or> (\<not> co \<and> name_matches (path_name p) (path_stem p) ''.txt'' q)
                 then Some (MatchResult p) else None)"
    if "lower (path_suffix p) = ''.txt''" "fs_stat fs p = Some st" "?cap < st_size st"
  proof -
    have "evaluate_path fs p q True co ?cap eo
              = evaluate_path fs p q False co ?cap eo"
      using that by (intro a) auto
    then show ?thesis
      using that(1) by (simp add: evaluate_path_def Let_def)
  qed
  have c: "is_probably_text fs p
            \<and> (\<exists>st contents. fs_stat fs p = Some st \<and> st_size st \<le> ?cap
                  \<and> fs_open fs p = Some contents
                  \<and> content_matches (fs_decode fs (py_read contents (st_size st))) q)
            \<and> (and_extensions q = [] \<or> lower (path_suffix p) \<in> set (and_extensions q))"
    if "evaluate_path fs p q True co ?cap eo = Some r"
       "evaluate_path fs p q False co ?cap eo = None"
    using that
    by (auto simp: evaluate_path_def Let_def content_probe_def read_text_def min_def
             split: if_splits option.splits bool.splits)
  show ?thesis
    using is_probably_text_iff [of fs p] a b c by blast
qed

theorem content_match_needs_text_within_cap_witness:
  "evaluate_path sample_fs [''r'', ''sub'', ''big.txt''] sample_query True False (1 * 1024 * 1024) False = None
   \<and> evaluate_path sample_fs [''r'', ''sub'', ''notes.txt''] sample_query True False (1 * 1024 * 1024) False
       = Some (MatchResult [''r'', ''sub'', ''notes.txt''])
   \<and> is_probably_text sample_fs [''r'', ''sub'', ''notes.txt'']
   \<and> \<not> is_probably_text sample_fs [''r'', ''a.jpg'']"
proof -
  let ?st = "\<lparr>st_dev = 1, st_ino = 12, st_size = 2000000\<rparr>"
  have p: "lower (path_suffix [''r'', ''sub'', ''big.txt'']) = ''.txt''
      \<and> fs_stat sample_fs [''r'', ''sub'', ''big.txt''] = Some ?st
      \<and> 1 * 1024 * 1024 < st_size ?st"
    by code_simp
  have v: "(if (False \<and> and_extensions sample_query \<noteq> [] \<and> ''.txt'' \<in> set (and_extensions sample_query))
              \<or> (\<not> False \<and> name_matches (path_name [''r'', ''sub'', ''big.txt''])
                    (path_stem [''r'', ''sub'', ''big.txt'']) ''.txt'' sample_query)
            then Some (MatchResult [''r'', ''sub'', ''big.txt'']) else None) = None"
    by code_simp
  note t = content_match_needs_text_within_cap
    [of sample_fs "[''r'', ''sub'', ''big.txt'']" 1 sample_query False False ?st]
  have a: "evaluate_path sample_fs [''r'', ''sub'', ''big.txt''] sample_query True False (1 * 1024 * 1024) False = None"
    using t [THEN conjunct2, THEN conjunct2, THEN conjunct1, rule_format, OF p] unfolding v .
  have b: "evaluate_path sample_fs [''r'', ''sub'', ''notes.txt''] sample_query True False (1 * 1024 * 1024) False
       = Some (MatchResult [''r'', ''sub'', ''notes.txt''])
   \<and> is_probably_text sample_fs [''r'', ''sub'', ''notes.txt'']
   \<and> \<not> is_probably_text sample_fs [''r'', ''a.jpg'']"
    by code_simp
  show ?thesis using a b by blast
qed


section \<open>Failures\<close>





section \<open>Lemmas on the coordinator\<close>

lemma timed_out_snd:
  "snd (timed_out clk c)
     = c\<lparr>clock_reads := (if idle_deadline c = None then clock_reads c else Suc (clock_reads c))\<rparr>"
  by (simp add: timed_out_def monotonic_def split: option.splits)

lemma timed_out_fst:
  "fst (timed_out clk c) \<longleftrightarrow> (\<exists>d. idle_deadline c = Some d \<and> d \<le> clk (clock_reads c))"
  by (simp add: timed_out_def monotonic_def split: option.splits)

lemma stop_or_timed_out_snd:
  "snd (stop_or_timed_out clk c)
     = c\<lparr>clock_reads := (if stop_event c \<or> idle_deadline c = None then clock_reads c
                        else Suc (clock_reads c))\<rparr>"
  by (simp add: stop_or_timed_out_def timed_out_snd)

lemma stop_or_timed_out_fst:
  "fst (stop_or_timed_out clk c) \<longleftrightarrow>
     stop_event c \<or> (\<exists>d. idle_deadline c = Some d \<and> d \<le> clk (clock_reads c))"
  by (simp add: stop_or_timed_out_def timed_out_fst)

lemma note_timeout_eq:
  "note_timeout clk c
     = c\<lparr>clock_reads := (if idle_deadline c = None then clock_reads c else Suc (clock_reads c)),
         stop_reason := (if \<exists>d. idle_deadline c = Some d \<and> d \<le> clk (clock_reads c)
                         then ''idle_timeout'' else stop_reason c)\<rparr>"
  by (simp add: note_timeout_def timed_out_def monotonic_def split: option.splits)

lemma reset_idle_timer_eq:
  "reset_idle_timer clk opts c
     = c\<lparr>clock_reads := Suc (clock_reads c),
         last_emit_time := Some (clk (clock_reads c)),
         idle_deadline := (if idle_configured opts
                           then Some (clk (clock_reads c) + the (idle_timeout_sec opts))
                           else idle_deadline c)\<rparr>"
  by (simp add: reset_idle_timer_def monotonic_def)

lemma maybe_emit_seen:
  "file_id fs p \<in> seen_ids c \<Longrightarrow> maybe_emit fs clk opts p c = (True, c)"
  by (simp add: maybe_emit_def)

lemma maybe_emit_new:
  "file_id fs p \<notin> seen_ids c \<Longrightarrow>
   maybe_emit fs clk opts p c =
     (\<not> max 1 (limit opts) \<le> emitted_count c + 1,
      c\<lparr>seen_ids := insert (file_id fs p) (seen_ids c),
        streamed := (if stream_callback opts then streamed c @ [p] else streamed c),
        results := (if stream_callback opts then results c else results c @ [MatchResult p]),
        emitted_count := emitted_count c + 1,
        clock_reads := Suc (clock_reads c),
        last_emit_time := Some (clk (clock_reads c)),
        idle_deadline := (if idle_configured opts
                          then Some (clk (clock_reads c) + the (idle_timeout_sec opts))
                          else idle_deadline c),
        stop_reason := (if max 1 (limit opts) \<le> emitted_count c + 1 then ''limit''
                        else stop_reason c),
        stop_event := (if max 1 (limit opts) \<le> emitted_count c + 1 then True
                       else stop_event c)\<rparr>)"
  by (simp add: maybe_emit_def reset_idle_timer_eq Let_def)

lemma coord_inv_clock:
  "coord_inv fs clk opts c \<Longrightarrow> clock_reads c \<le> n \<Longrightarrow> coord_inv fs clk opts (c\<lparr>clock_reads := n\<rparr>)"
  by (auto simp: coord_inv_def emitted_paths_def split: option.splits)

lemma coord_inv_timed_out:
  "coord_inv fs clk opts c \<Longrightarrow> coord_inv fs clk opts (snd (timed_out clk c))"
  by (simp add: timed_out_snd coord_inv_clock)

lemma coord_inv_stop_or_timed_out:
  "coord_inv fs clk opts c \<Longrightarrow> coord_inv fs clk opts (snd (stop_or_timed_out clk c))"
  by (simp add: stop_or_timed_out_snd coord_inv_clock)

lemma coord_inv_note_timeout:
  "coord_inv fs clk opts c \<Longrightarrow> \<not> stop_event c \<Longrightarrow> coord_inv fs clk opts (note_timeout clk c)"
  by (auto simp: note_timeout_eq coord_inv_def emitted_paths_def split: option.splits)

lemma coord_inv_maybe_emit:
  assumes "coord_inv fs clk opts c" and "\<not> stop_event c"
  shows "coord_inv fs clk opts (snd (maybe_emit fs clk opts p c))"
proof (cases "file_id fs p \<in> seen_ids c")
  case True
  then show ?thesis using assms by (simp add: maybe_emit_seen)
next
  case False
  have n: "file_id fs p \<notin> file_id fs ` set (emitted_paths c)"
    using False assms(1) by (simp add: coord_inv_def)
  show ?thesis
    using assms n unfolding maybe_emit_new [OF False] coord_inv_def emitted_paths_def
    by (auto split: option.splits)
qed

lemma maybe_emit_go:
  assumes "coord_inv fs clk opts c" and "\<not> stop_event c"
  shows "fst (maybe_emit fs clk opts p c) \<longleftrightarrow> \<not> stop_event (snd (maybe_emit fs clk opts p c))"
proof (cases "file_id fs p \<in> seen_ids c")
  case True
  then show ?thesis using assms by (simp add: maybe_emit_seen)
next
  case False
  show ?thesis
    using assms unfolding maybe_emit_new [OF False] by (auto simp: coord_inv_def)
qed

lemma fast_loop_Cons:
  "fast_loop fs clk q opts mb (p # ps) c =
     (if fst (stop_or_timed_out clk c) then note_timeout clk (snd (stop_or_timed_out clk c))
      else (case evaluate_path fs p q False (content_only opts) mb (ext_match_or opts) of
              None \<Rightarrow> fast_loop fs clk q opts mb ps (snd (stop_or_timed_out clk c))
            | Some r \<Rightarrow>
               if fst (maybe_emit fs clk opts (result_path r) (snd (stop_or_timed_out clk c)))
               then fast_loop fs clk q opts mb ps
                      (snd (maybe_emit fs clk opts (result_path r) (snd (stop_or_timed_out clk c))))
               else snd (maybe_emit fs clk opts (result_path r) (snd (stop_or_timed_out clk c)))))"
  by (simp add: split_beta Let_def split: option.split)

lemma drain_batch_Cons:
  "drain_batch fs clk opts (fut # futs) c =
     (if stop_event c \<or> stop_reason c = ''idle_timeout'' then c
      else (case fut of
              None \<Rightarrow> drain_batch fs clk opts futs c
            | Some r \<Rightarrow>
               if fst (maybe_emit fs clk opts (result_path r) c)
               then drain_batch fs clk opts futs (snd (maybe_emit fs clk opts (result_path r) c))
               else snd (maybe_emit fs clk opts (result_path r) c)))"
  by (simp add: split_beta Let_def split: option.split)

lemma drain_final_Cons:
  "drain_final fs clk opts (fut # futs) c =
     (if stop_event c then c
      else (case fut of
              None \<Rightarrow> drain_final fs clk opts futs c
            | Some r \<Rightarrow>
               if fst (maybe_emit fs clk opts (result_path r) c)
               then drain_final fs clk opts futs (snd (maybe_emit fs clk opts (result_path r) c))
               else snd (maybe_emit fs clk opts (result_path r) c)))"
  by (simp add: split_beta Let_def split: option.split)

lemma pooled_loop_Cons:
  "pooled_loop fs clk sched q opts mb (p # ps) futures k c =
     (if fst (stop_or_timed_out clk c)
      then (futures, k, note_timeout clk (snd (stop_or_timed_out clk c)))
      else (let futures1 = futures
                  @ [evaluate_path fs p q True (content_only opts) mb (ext_match_or opts)];
                c1 = snd (stop_or_timed_out clk c);
                c4 = drain_batch fs clk opts (sched k futures1)
                       (note_timeout clk (snd (batch_full clk futures1 c1)))
            in if fst (batch_full clk futures1 c1)
               then (if stop_event c4 \<or> stop_reason c4 = ''idle_timeout''
                     then ([], Suc k, c4)
                     else pooled_loop fs clk sched q opts mb ps [] (Suc k) c4)
               else pooled_loop fs clk sched q opts mb ps futures1 k
                      (snd (batch_full clk futures1 c1))))"
  by (simp add: split_beta Let_def batch_full_def)

lemma stop_event_stop_or_timed_out [simp]:
  "stop_event (snd (stop_or_timed_out clk c)) = stop_event c"
  by (simp add: stop_or_timed_out_snd)

lemma stop_event_timed_out [simp]: "stop_event (snd (timed_out clk c)) = stop_event c"
  by (simp add: timed_out_snd)

lemma stop_event_note_timeout [simp]: "stop_event (note_timeout clk c) = stop_event c"
  by (simp add: note_timeout_eq)

lemma stop_event_batch_full [simp]: "stop_event (snd (batch_full clk futs c)) = stop_event c"
  by (simp add: batch_full_def)

lemma coord_inv_batch_full:
  "coord_inv fs clk opts c \<Longrightarrow> coord_inv fs clk opts (snd (batch_full clk futs c))"
  by (simp add: batch_full_def coord_inv_timed_out)

lemma fast_loop_inv:
  "coord_inv fs clk opts c \<Longrightarrow> \<not> stop_event c \<Longrightarrow>
     coord_inv fs clk opts (fast_loop fs clk q opts mb ps c)"
proof (induction ps arbitrary: c)
  case Nil
  then show ?case by simp
next
  case (Cons p ps)
  let ?c1 = "snd (stop_or_timed_out clk c)"
  have i1: "coord_inv fs clk opts ?c1" and s1: "\<not> stop_event ?c1"
    using Cons.prems by (simp_all add: coord_inv_stop_or_timed_out)
  show ?case
  proof (cases "fst (stop_or_timed_out clk c)")
    case True
    then show ?thesis
      using i1 s1 by (simp add: fast_loop_Cons coord_inv_note_timeout del: fast_loop.simps)
  next
    case False
    show ?thesis
    proof (cases "evaluate_path fs p q False (content_only opts) mb (ext_match_or opts)")
      case None
      then show ?thesis
        using False Cons.IH [OF i1 s1] by (simp add: fast_loop_Cons del: fast_loop.simps)
    next
      case (Some r)
      let ?m = "maybe_emit fs clk opts (result_path r) ?c1"
      have i2: "coord_inv fs clk opts (snd ?m)"
        using i1 s1 by (rule coord_inv_maybe_emit)
      have g: "fst ?m \<longleftrightarrow> \<not> stop_event (snd ?m)"
        using i1 s1 by (rule maybe_emit_go)
      show ?thesis
        using False Some i2 g Cons.IH [OF i2]
        by (simp add: fast_loop_Cons del: fast_loop.simps)
    qed
  qed
qed

lemma drain_batch_inv:
  "coord_inv fs clk opts c \<Longrightarrow> coord_inv fs clk opts (drain_batch fs clk opts futs c)"
proof (induction futs arbitrary: c)
  case Nil
  then show ?case by simp
next
  case (Cons fut futs)
  show ?case
  proof (cases "stop_event c \<or> stop_reason c = ''idle_timeout''")
    case True
    then show ?thesis using Cons.prems by (simp add: drain_batch_Cons del: drain_batch.simps)
  next
    case False
    show ?thesis
    proof (cases fut)
      case None
      then show ?thesis
        using False Cons by (simp add: drain_batch_Cons del: drain_batch.simps)
    next
      case (Some r)
      have "coord_inv fs clk opts (snd (maybe_emit fs clk opts (result_path r) c))"
        using Cons.prems False by (intro coord_inv_maybe_emit) simp_all
      then show ?thesis
        using False Some Cons.IH by (simp add: drain_batch_Cons del: drain_batch.simps)
    qed
  qed
qed

lemma drain_final_inv:
  "coord_inv fs clk opts c \<Longrightarrow> coord_inv fs clk opts (drain_final fs clk opts futs c)"
proof (induction futs arbitrary: c)
  case Nil
  then show ?case by simp
next
  case (Cons fut futs)
  show ?case
  proof (cases "stop_event c")
    case True
    then show ?thesis using Cons.prems by (simp add: drain_final_Cons del: drain_final.simps)
  next
    case False
    show ?thesis
    proof (cases fut)
      case None
      then show ?thesis
        using False Cons by (simp add: drain_final_Cons del: drain_final.simps)
    next
      case (Some r)
      have "coord_inv fs clk opts (snd (maybe_emit fs clk opts (result_path r) c))"
        using Cons.prems False by (intro coord_inv_maybe_emit) simp_all
      then show ?thesis
        using False Some Cons.IH by (simp add: drain_final_Cons del: drain_final.simps)
    qed
  qed
qed

lemma pooled_loop_inv:
  "coord_inv fs clk opts c \<Longrightarrow> \<not> stop_event c \<Longrightarrow>
     coord_inv fs clk opts (snd (snd (pooled_loop fs clk sched q opts mb ps futures k c)))"
proof (induction ps arbitrary: c futures k)
  case Nil
  then show ?case by simp
next
  case (Cons p ps)
  let ?c1 = "snd (stop_or_timed_out clk c)"
  let ?f1 = "futures @ [evaluate_path fs p q True (content_only opts) mb (ext_match_or opts)]"
  let ?c2 = "snd (batch_full clk ?f1 ?c1)"
  let ?c4 = "drain_batch fs clk opts (sched k ?f1) (note_timeout clk ?c2)"
  have i1: "coord_inv fs clk opts ?c1" and s1: "\<not> stop_event ?c1"
    using Cons.prems by (simp_all add: coord_inv_stop_or_timed_out)
  have i2: "coord_inv fs clk opts ?c2" and s2: "\<not> stop_event ?c2"
    using i1 s1 by (simp_all add: coord_inv_batch_full)
  have i4: "coord_inv fs clk opts ?c4"
    using i2 s2 by (intro drain_batch_inv coord_inv_note_timeout)
  show ?case
  proof (cases "fst (stop_or_timed_out clk c)")
    case True
    then show ?thesis
      using i1 s1 by (simp add: pooled_loop_Cons coord_inv_note_timeout del: pooled_loop.simps)
  next
    case False
    show ?thesis
    proof (cases "fst (batch_full clk ?f1 ?c1)")
      case full: True
      show ?thesis
      proof (cases "stop_event ?c4 \<or> stop_reason ?c4 = ''idle_timeout''")
        case True
        then show ?thesis
          using False full i4 by (simp add: pooled_loop_Cons Let_def del: pooled_loop.simps)
      next
        case cont: False
        then have "\<not> stop_event ?c4" by simp
        from Cons.IH [OF i4 this] show ?thesis
          using False full cont by (simp add: pooled_loop_Cons Let_def del: pooled_loop.simps)
      qed
    next
      case notfull: False
      from Cons.IH [OF i2 s2] show ?thesis
        using False notfull by (simp add: pooled_loop_Cons Let_def del: pooled_loop.simps)
    qed
  qed
qed

lemma coordinate_inv: "coord_inv fs clk opts (coordinate fs clk sched roots q opts)"
proof -
  let ?c1 = "(snd (monotonic clk initial))\<lparr>idle_deadline :=
                    (if idle_configured opts then Some (fst (monotonic clk initial) + the (idle_timeout_sec opts))
                     else None)\<rparr>"
  have i: "coord_inv fs clk opts ?c1" and s: "\<not> stop_event ?c1"
    by (simp_all add: coord_inv_def initial_def monotonic_def emitted_paths_def)
  show ?thesis
    unfolding coordinate_def Let_def split_beta
    using fast_loop_inv [OF i s] pooled_loop_inv [OF i s]
    by (auto intro!: drain_final_inv)
qed

lemma maybe_emit_limit:
  "limit opts \<le> 0 \<Longrightarrow> maybe_emit fs clk (opts\<lparr>limit := 1\<rparr>) p c = maybe_emit fs clk opts p c"
proof (cases "file_id fs p \<in> seen_ids c")
  case True
  then show ?thesis by (simp add: maybe_emit_seen)
next
  case False
  assume "limit opts \<le> 0"
  then show ?thesis
    by (simp add: maybe_emit_new [OF False] idle_configured_def)
qed

lemma fast_loop_limit:
  "limit opts \<le> 0 \<Longrightarrow>
     fast_loop fs clk q (opts\<lparr>limit := 1\<rparr>) mb ps c = fast_loop fs clk q opts mb ps c"
  by (induction ps arbitrary: c)
     (simp_all add: fast_loop_Cons maybe_emit_limit del: fast_loop.simps(2) split: option.split)

lemma drain_batch_limit:
  "limit opts \<le> 0 \<Longrightarrow>
     drain_batch fs clk (opts\<lparr>limit := 1\<rparr>) futs c = drain_batch fs clk opts futs c"
  by (induction futs arbitrary: c)
     (simp_all add: drain_batch_Cons maybe_emit_limit del: drain_batch.simps(2) split: option.split)

lemma drain_final_limit:
  "limit opts \<le> 0 \<Longrightarrow>
     drain_final fs clk (opts\<lparr>limit := 1\<rparr>) futs c = drain_final fs clk opts futs c"
  by (induction futs arbitrary: c)
     (simp_all add: drain_final_Cons maybe_emit_limit del: drain_final.simps(2) split: option.split)

lemma pooled_loop_limit:
  "limit opts \<le> 0 \<Longrightarrow>
     pooled_loop fs clk sched q (opts\<lparr>limit := 1\<rparr>) mb ps futures k c
       = pooled_loop fs clk sched q opts mb ps futures k c"
  by (induction ps arbitrary: c futures k)
     (simp_all add: pooled_loop_Cons drain_batch_limit Let_def del: pooled_loop.simps(2))

lemma coordinate_limit:
  "limit opts \<le> 0 \<Longrightarrow>
     coordinate fs clk sched roots q (opts\<lparr>limit := 1\<rparr>) = coordinate fs clk sched roots q opts"
  by (simp add: coordinate_def fast_loop_limit pooled_loop_limit drain_final_limit
      idle_configured_def Let_def split_beta)

lemma search_limit:
  "limit opts \<le> 0 \<Longrightarrow>
     search fs clk sched roots q (opts\<lparr>limit := 1\<rparr>) = search fs clk sched roots q opts"
  by (simp add: search_def coordinate_limit)

subsection \<open>Streaming\<close>

lemma to_stream_simps [simp]:
  "stop_event (to_stream c) = stop_event c"
  "stop_reason (to_stream c) = stop_reason c"
  "idle_deadline (to_stream c) = idle_deadline c"
  "clock_reads (to_stream c) = clock_reads c"
  "emitted_count (to_stream c) = emitted_count c"
  "last_emit_time (to_stream c) = last_emit_time c"
  "results (to_stream c) = []"
  "streamed (to_stream c) = map result_path (results c)"
  by (simp_all add: to_stream_def)














lemma search_fields:
  "out_results (search fs clk sched roots q opts) = results (coordinate fs clk sched roots q opts)"
  "out_streamed (search fs clk sched roots q opts) = streamed (coordinate fs clk sched roots q opts)"
  "emitted (out_stats (search fs clk sched roots q opts))
     = emitted_count (coordinate fs clk sched roots q opts)"
  "stopped_reason (out_stats (search fs clk sched roots q opts))
     = stop_reason (coordinate fs clk sched roots q opts)"
  by (simp_all add: search_def Let_def)

section \<open>Deduplication\<close>

text \<open>
  C3: an accepted path whose identity was already seen leaves the coordinator as it is
  and lets the loop continue: nothing is delivered, nothing is counted. So in every
  outcome of \<open>search\<close> the emitted paths have pairwise different identities, the emitted
  counter is their number, and it does not exceed \<open>max(1, limit)\<close>.
\<close>

theorem same_identity_emitted_once:
  "(file_id fs p \<in> seen_ids c \<longrightarrow> maybe_emit fs clk opts p c = (True, c))
   \<and> distinct (map (file_id fs)
        (map result_path (out_results (search fs clk sched roots q opts))
         @ out_streamed (search fs clk sched roots q opts)))
   \<and> emitted (out_stats (search fs clk sched roots q opts))
       = int (length (out_results (search fs clk sched roots q opts))
              + length (out_streamed (search fs clk sched roots q opts)))
   \<and> emitted (out_stats (search fs clk sched roots q opts)) \<le> max 1 (limit opts)"
proof -
  note i = coordinate_inv [of fs clk opts sched roots q, unfolded coord_inv_def emitted_paths_def]
  have a: "distinct (map (file_id fs)
        (map result_path (out_results (search fs clk sched roots q opts))
         @ out_streamed (search fs clk sched roots q opts)))"
    unfolding search_fields using i by blast
  have b: "emitted (out_stats (search fs clk sched roots q opts))
       = int (length (out_results (search fs clk sched roots q opts))
              + length (out_streamed (search fs clk sched roots q opts)))"
    unfolding search_fields using i by simp
  have c: "emitted (out_stats (search fs clk sched roots q opts)) \<le> max 1 (limit opts)"
    unfolding search_fields using i
    by (cases "stop_event (coordinate fs clk sched roots q opts)") simp_all
  show ?thesis
    using a b c maybe_emit_seen [of fs p c clk opts] by blast
qed

theorem same_identity_emitted_once_witness:
  "out_results (search sample_fs (\<lambda>n. real n) (\<lambda>k futs. futs) sample_roots sample_query sample_options)
     = [MatchResult [''r'', ''My Invoice.pdf''], MatchResult [''r'', ''link.txt'']]
   \<and> file_id sample_fs [''r'', ''link.txt''] = file_id sample_fs [''r'', ''sub'', ''notes.txt'']
   \<and> evaluate_path sample_fs [''r'', ''sub'', ''notes.txt''] sample_query True False (1 * 1024 * 1024) False
       = Some (MatchResult [''r'', ''sub'', ''notes.txt''])
   \<and> emitted (out_stats (search sample_fs (\<lambda>n. real n) (\<lambda>k futs. futs) sample_roots sample_query
         sample_options)) = 2
   \<and> distinct [file_id sample_fs [''r'', ''My Invoice.pdf''], file_id sample_fs [''r'', ''link.txt'']]"
proof -
  let ?s = "search sample_fs (\<lambda>n. real n) (\<lambda>k futs. futs) sample_roots sample_query sample_options"
  have r: "out_results ?s = [MatchResult [''r'', ''My Invoice.pdf''], MatchResult [''r'', ''link.txt'']]"
    and s: "out_streamed ?s = []"
    by code_simp+
  have e: "file_id sample_fs [''r'', ''link.txt''] = file_id sample_fs [''r'', ''sub'', ''notes.txt'']
     \<and> evaluate_path sample_fs [''r'', ''sub'', ''notes.txt''] sample_query True False (1 * 1024 * 1024) False
       = Some (MatchResult [''r'', ''sub'', ''notes.txt''])"
    by code_simp
  note t = same_identity_emitted_once [of sample_fs _ _ "\<lambda>n. real n" sample_options "\<lambda>k futs. futs"
      sample_roots sample_query]
  have d: "distinct [file_id sample_fs [''r'', ''My Invoice.pdf''], file_id sample_fs [''r'', ''link.txt'']]"
    using t [THEN conjunct2, THEN conjunct1] unfolding r s by simp
  have n: "emitted (out_stats ?s) = 2"
    using t [THEN conjunct2, THEN conjunct2, THEN conjunct1] unfolding r s by simp
  show ?thesis using r e d n by blast
qed

section \<open>The two channels\<close>



section \<open>A limit below one\<close>

text \<open>
  C10: with \<open>limit <= 0\<close> the search does what it does with \<open>limit = 1\<close>: at most one
  match is emitted, the stop reason is \<open>limit\<close> exactly when one was emitted, and the
  first emission sets the stop event and the reason and stops the loop.
\<close>

theorem nonpositive_limit_is_one:
  "(limit opts \<le> 0 \<longrightarrow>
      search fs clk sched roots q opts = search fs clk sched roots q (opts\<lparr>limit := 1\<rparr>)
      \<and> emitted (out_stats (search fs clk sched roots q opts)) \<le> 1
      \<and> (emitted (out_stats (search fs clk sched roots q opts)) = 1
           \<longleftrightarrow> stopped_reason (out_stats (search fs clk sched roots q opts)) = ''limit''))
   \<and> (limit opts \<le> 0 \<and> emitted_count c = 0 \<and> file_id fs p \<notin> seen_ids c \<longrightarrow>
        \<not> fst (maybe_emit fs clk opts p c)
        \<and> emitted_count (snd (maybe_emit fs clk opts p c)) = 1
        \<and> stop_event (snd (maybe_emit fs clk opts p c))
        \<and> stop_reason (snd (maybe_emit fs clk opts p c)) = ''limit'')"
proof -
  note i = coordinate_inv [of fs clk opts sched roots q, unfolded coord_inv_def emitted_paths_def]
  let ?c = "coordinate fs clk sched roots q opts"
  have a: "search fs clk sched roots q opts = search fs clk sched roots q (opts\<lparr>limit := 1\<rparr>)
      \<and> emitted (out_stats (search fs clk sched roots q opts)) \<le> 1
      \<and> (emitted (out_stats (search fs clk sched roots q opts)) = 1
           \<longleftrightarrow> stopped_reason (out_stats (search fs clk sched roots q opts)) = ''limit'')"
    if l: "limit opts \<le> 0"
  proof -
    have m: "max 1 (limit opts) = 1" using l by simp
    have "if stop_event ?c then emitted_count ?c = max 1 (limit opts)
          else emitted_count ?c < max 1 (limit opts)"
      using i by blast
    then have e: "if stop_event ?c then emitted_count ?c = 1 else emitted_count ?c < 1"
      unfolding m .
    have s: "stop_event ?c \<longleftrightarrow> stop_reason ?c = ''limit''" using i by blast
    have "emitted_count ?c \<le> 1 \<and> (emitted_count ?c = 1 \<longleftrightarrow> stop_reason ?c = ''limit'')"
      using e s by (cases "stop_event ?c") simp_all
    then show ?thesis
      unfolding search_fields using search_limit [OF l, of fs clk sched roots q] by simp
  qed
  have b: "\<not> fst (maybe_emit fs clk opts p c)
        \<and> emitted_count (snd (maybe_emit fs clk opts p c)) = 1
        \<and> stop_event (snd (maybe_emit fs clk opts p c))
        \<and> stop_reason (snd (maybe_emit fs clk opts p c)) = ''limit''"
    if "limit opts \<le> 0 \<and> emitted_count c = 0 \<and> file_id fs p \<notin> seen_ids c"
    using that by (simp add: maybe_emit_new)
  show ?thesis using a b by blast
qed

theorem nonpositive_limit_is_one_witness:
  "search sample_fs (\<lambda>n. real n) (\<lambda>k futs. futs) sample_roots sample_query (sample_options\<lparr>limit := - 3\<rparr>)
     = search sample_fs (\<lambda>n. real n) (\<lambda>k futs. futs) sample_roots sample_query (sample_options\<lparr>limit := 1\<rparr>)
   \<and> out_results (search sample_fs (\<lambda>n. real n) (\<lambda>k futs. futs) sample_roots sample_query
         (sample_options\<lparr>limit := - 3\<rparr>)) = [MatchResult [''r'', ''My Invoice.pdf'']]
   \<and> emitted (out_stats (search sample_fs (\<lambda>n. real n) (\<lambda>k futs. futs) sample_roots sample_query
         (sample_options\<lparr>limit := - 3\<rparr>))) = 1
   \<and> stopped_reason (out_stats (search sample_fs (\<lambda>n. real n) (\<lambda>k futs. futs) sample_roots sample_query
         (sample_options\<lparr>limit := - 3\<rparr>))) = ''limit''"
proof -
  let ?o = "sample_options\<lparr>limit := - 3\<rparr>"
  have l: "limit ?o \<le> 0" by simp
  note t = nonpositive_limit_is_one [of ?o sample_fs "\<lambda>n. real n" "\<lambda>k futs. futs" sample_roots
      sample_query, THEN conjunct1, rule_format, OF l]
  have r: "out_results (search sample_fs (\<lambda>n. real n) (\<lambda>k futs. futs) sample_roots sample_query ?o)
      = [MatchResult [''r'', ''My Invoice.pdf'']]"
    and e: "emitted (out_stats (search sample_fs (\<lambda>n. real n) (\<lambda>k futs. futs) sample_roots
         sample_query ?o)) = 1"
    by code_simp+
  have a: "search sample_fs (\<lambda>n. real n) (\<lambda>k futs. futs) sample_roots sample_query ?o
     = search sample_fs (\<lambda>n. real n) (\<lambda>k futs. futs) sample_roots sample_query (sample_options\<lparr>limit := 1\<rparr>)"
    using t by simp
  have b: "stopped_reason (out_stats (search sample_fs (\<lambda>n. real n) (\<lambda>k futs. futs) sample_roots
         sample_query ?o)) = ''limit''"
    using t e by blast
  show ?thesis using a r e b by blast
qed

section \<open>Coverage\<close>

lemma future_ids_simps [simp]:
  "future_ids fs [] = {}"
  "future_ids fs (None # futs) = future_ids fs futs"
  "future_ids fs (Some r # futs) = insert (file_id fs (result_path r)) (future_ids fs futs)"
  "future_ids fs (futs @ futs') = future_ids fs futs \<union> future_ids fs futs'"
  by (auto simp: future_ids_def)

lemma future_ids_cong: "set futs = set futs' \<Longrightarrow> future_ids fs futs = future_ids fs futs'"
  by (simp add: future_ids_def)

lemma evaluate_path_Some:
  "evaluate_path fs p q sc co mb eo = Some r \<Longrightarrow> result_path r = p"
  by (auto simp: evaluate_path_def Let_def split: if_splits option.splits bool.splits)

lemma maybe_emit_seen_ids:
  "seen_ids (snd (maybe_emit fs clk opts p c)) = insert (file_id fs p) (seen_ids c)"
  by (cases "file_id fs p \<in> seen_ids c") (auto simp: maybe_emit_seen maybe_emit_new)

lemma maybe_emit_reason:
  "\<not> stop_event c \<Longrightarrow> \<not> stop_event (snd (maybe_emit fs clk opts p c)) \<Longrightarrow>
     stop_reason (snd (maybe_emit fs clk opts p c)) = stop_reason c"
  by (cases "file_id fs p \<in> seen_ids c") (auto simp: maybe_emit_seen maybe_emit_new split: if_splits)

lemma drain_final_stopped: "stop_event c \<Longrightarrow> drain_final fs clk opts futs c = c"
  by (cases futs) simp_all

lemma drain_batch_stopped:
  "stop_event c \<or> stop_reason c = ''idle_timeout'' \<Longrightarrow> drain_batch fs clk opts futs c = c"
  by (cases futs) auto

lemma drain_final_cover:
  "coord_inv fs clk opts c \<Longrightarrow>
     (stop_event (drain_final fs clk opts futs c)
        \<or> seen_ids (drain_final fs clk opts futs c) = seen_ids c \<union> future_ids fs futs)
     \<and> (\<not> stop_event (drain_final fs clk opts futs c)
          \<longrightarrow> stop_reason (drain_final fs clk opts futs c) = stop_reason c)"
proof (induction futs arbitrary: c)
  case Nil
  then show ?case by simp
next
  case (Cons fut futs)
  show ?case
  proof (cases "stop_event c")
    case True
    then show ?thesis by (simp add: drain_final_stopped)
  next
    case False
    show ?thesis
    proof (cases fut)
      case None
      then show ?thesis
        using False Cons.IH [OF Cons.prems] by (simp add: drain_final_Cons del: drain_final.simps)
    next
      case (Some r)
      let ?m = "maybe_emit fs clk opts (result_path r) c"
      have i: "coord_inv fs clk opts (snd ?m)"
        using Cons.prems False by (rule coord_inv_maybe_emit)
      have g: "fst ?m \<longleftrightarrow> \<not> stop_event (snd ?m)"
        using Cons.prems False by (rule maybe_emit_go)
      show ?thesis
      proof (cases "fst ?m")
        case True
        then have r: "stop_reason (snd ?m) = stop_reason c"
          using g False maybe_emit_reason by blast
        have d: "drain_final fs clk opts (fut # futs) c = drain_final fs clk opts futs (snd ?m)"
          using False Some True by (simp add: drain_final_Cons del: drain_final.simps)
        show ?thesis
          unfolding d using Cons.IH [OF i] r Some by (auto simp: maybe_emit_seen_ids)
      next
        case nogo: False
        then have d: "drain_final fs clk opts (fut # futs) c = snd ?m"
          using False Some by (simp add: drain_final_Cons del: drain_final.simps)
        show ?thesis unfolding d using nogo g by simp
      qed
    qed
  qed
qed

lemma drain_batch_cover:
  "coord_inv fs clk opts c \<Longrightarrow> stop_reason c \<noteq> ''idle_timeout'' \<Longrightarrow>
     (stop_event (drain_batch fs clk opts futs c)
        \<or> seen_ids (drain_batch fs clk opts futs c) = seen_ids c \<union> future_ids fs futs)
     \<and> (\<not> stop_event (drain_batch fs clk opts futs c)
          \<longrightarrow> stop_reason (drain_batch fs clk opts futs c) = stop_reason c)"
proof (induction futs arbitrary: c)
  case Nil
  then show ?case by simp
next
  case (Cons fut futs)
  show ?case
  proof (cases "stop_event c")
    case True
    then show ?thesis by (simp add: drain_batch_stopped)
  next
    case False
    show ?thesis
    proof (cases fut)
      case None
      then show ?thesis
        using False Cons.IH [OF Cons.prems] Cons.prems(2)
        by (simp add: drain_batch_Cons del: drain_batch.simps)
    next
      case (Some r)
      let ?m = "maybe_emit fs clk opts (result_path r) c"
      have i: "coord_inv fs clk opts (snd ?m)"
        using Cons.prems(1) False by (rule coord_inv_maybe_emit)
      have g: "fst ?m \<longleftrightarrow> \<not> stop_event (snd ?m)"
        using Cons.prems(1) False by (rule maybe_emit_go)
      show ?thesis
      proof (cases "fst ?m")
        case True
        then have r: "stop_reason (snd ?m) = stop_reason c"
          using g False maybe_emit_reason by blast
        have d: "drain_batch fs clk opts (fut # futs) c = drain_batch fs clk opts futs (snd ?m)"
          using False Some True Cons.prems(2) by (simp add: drain_batch_Cons del: drain_batch.simps)
        have n: "stop_reason (snd ?m) \<noteq> ''idle_timeout''" using r Cons.prems(2) by simp
        show ?thesis
          unfolding d using Cons.IH [OF i n] r Some by (auto simp: maybe_emit_seen_ids)
      next
        case nogo: False
        then have d: "drain_batch fs clk opts (fut # futs) c = snd ?m"
          using False Some Cons.prems(2) by (simp add: drain_batch_Cons del: drain_batch.simps)
        show ?thesis unfolding d using nogo g by simp
      qed
    qed
  qed
qed

lemma timeout_noted:
  assumes "coord_inv fs clk opts c" and "\<not> stop_event c" and "fst (stop_or_timed_out clk c)"
    and "(\<forall>i j. i \<le> j \<longrightarrow> clk i \<le> clk j) \<or> \<not> idle_configured opts"
  shows "stop_reason (note_timeout clk (snd (stop_or_timed_out clk c))) = ''idle_timeout''"
proof -
  obtain d where d: "idle_deadline c = Some d" "d \<le> clk (clock_reads c)"
    using assms(2,3) by (auto simp: stop_or_timed_out_fst)
  then have "idle_configured opts" using assms(1) by (auto simp: coord_inv_def)
  then have "clk (clock_reads c) \<le> clk (Suc (clock_reads c))" using assms(4) by simp
  then have "d \<le> clk (Suc (clock_reads c))" using d(2) by simp
  then show ?thesis
    using d(1) assms(2) by (simp add: stop_or_timed_out_snd note_timeout_eq)
qed

lemma stop_reason_stop_or_timed_out [simp]:
  "stop_reason (snd (stop_or_timed_out clk c)) = stop_reason c"
  by (simp add: stop_or_timed_out_snd)

lemma seen_ids_stop_or_timed_out [simp]:
  "seen_ids (snd (stop_or_timed_out clk c)) = seen_ids c"
  by (simp add: stop_or_timed_out_snd)

lemma stop_reason_batch_full [simp]: "stop_reason (snd (batch_full clk futs c)) = stop_reason c"
  by (simp add: batch_full_def timed_out_snd)

lemma seen_ids_batch_full [simp]: "seen_ids (snd (batch_full clk futs c)) = seen_ids c"
  by (simp add: batch_full_def timed_out_snd)

lemma seen_ids_note_timeout [simp]: "seen_ids (note_timeout clk c) = seen_ids c"
  by (simp add: note_timeout_eq)

lemma fast_loop_cover:
  assumes "coord_inv fs clk opts c" and "\<not> stop_event c"
    and "(\<forall>i j. i \<le> j \<longrightarrow> clk i \<le> clk j) \<or> \<not> idle_configured opts"
  shows "stop_event (fast_loop fs clk q opts mb ps c)
     \<or> stop_reason (fast_loop fs clk q opts mb ps c) = ''idle_timeout''
     \<or> seen_ids c \<union> file_id fs ` {p \<in> set ps.
            evaluate_path fs p q False (content_only opts) mb (ext_match_or opts) \<noteq> None}
         \<subseteq> seen_ids (fast_loop fs clk q opts mb ps c)"
  using assms(1,2)
proof (induction ps arbitrary: c)
  case Nil
  then show ?case by simp
next
  case (Cons p ps)
  let ?c1 = "snd (stop_or_timed_out clk c)"
  have i1: "coord_inv fs clk opts ?c1" and s1: "\<not> stop_event ?c1"
    using Cons.prems by (simp_all add: coord_inv_stop_or_timed_out)
  show ?case
  proof (cases "fst (stop_or_timed_out clk c)")
    case True
    then show ?thesis
      using timeout_noted [OF Cons.prems True assms(3)]
      by (simp add: fast_loop_Cons del: fast_loop.simps)
  next
    case False
    show ?thesis
    proof (cases "evaluate_path fs p q False (content_only opts) mb (ext_match_or opts)")
      case None
      have d: "fast_loop fs clk q opts mb (p # ps) c = fast_loop fs clk q opts mb ps ?c1"
        using False None by (simp add: fast_loop_Cons del: fast_loop.simps)
      show ?thesis
        unfolding d using Cons.IH [OF i1 s1] None by auto
    next
      case (Some r)
      then have rp: "result_path r = p" by (rule evaluate_path_Some)
      let ?m = "maybe_emit fs clk opts p ?c1"
      have i2: "coord_inv fs clk opts (snd ?m)"
        using i1 s1 by (rule coord_inv_maybe_emit)
      have g: "fst ?m \<longleftrightarrow> \<not> stop_event (snd ?m)"
        using i1 s1 by (rule maybe_emit_go)
      show ?thesis
      proof (cases "fst ?m")
        case True
        have d: "fast_loop fs clk q opts mb (p # ps) c = fast_loop fs clk q opts mb ps (snd ?m)"
          using False Some True rp by (simp add: fast_loop_Cons del: fast_loop.simps)
        have s2: "\<not> stop_event (snd ?m)" using True g by simp
        show ?thesis
          unfolding d using Cons.IH [OF i2 s2] by (auto simp: maybe_emit_seen_ids)
      next
        case nogo: False
        have d: "fast_loop fs clk q opts mb (p # ps) c = snd ?m"
          using False Some nogo rp by (simp add: fast_loop_Cons del: fast_loop.simps)
        show ?thesis unfolding d using nogo g by simp
      qed
    qed
  qed
qed

lemma pooled_loop_cover:
  assumes "coord_inv fs clk opts c" and "\<not> stop_event c" and "stop_reason c \<noteq> ''idle_timeout''"
    and "(\<forall>i j. i \<le> j \<longrightarrow> clk i \<le> clk j) \<or> \<not> idle_configured opts"
    and "\<forall>k xs. set (sched k xs) = set xs"
  shows "stop_event (snd (snd (pooled_loop fs clk sched q opts mb ps futures k c)))
     \<or> stop_reason (snd (snd (pooled_loop fs clk sched q opts mb ps futures k c))) = ''idle_timeout''
     \<or> seen_ids c \<union> future_ids fs futures \<union> file_id fs ` {p \<in> set ps.
            evaluate_path fs p q True (content_only opts) mb (ext_match_or opts) \<noteq> None}
         \<subseteq> seen_ids (snd (snd (pooled_loop fs clk sched q opts mb ps futures k c)))
           \<union> future_ids fs (fst (pooled_loop fs clk sched q opts mb ps futures k c))"
  using assms(1,2,3)
proof (induction ps arbitrary: c futures k)
  case Nil
  then show ?case by simp
next
  case (Cons p ps)
  let ?ev = "evaluate_path fs p q True (content_only opts) mb (ext_match_or opts)"
  let ?c1 = "snd (stop_or_timed_out clk c)"
  let ?f1 = "futures @ [?ev]"
  let ?c2 = "snd (batch_full clk ?f1 ?c1)"
  let ?c3 = "note_timeout clk ?c2"
  let ?c4 = "drain_batch fs clk opts (sched k ?f1) ?c3"
  have i1: "coord_inv fs clk opts ?c1" and s1: "\<not> stop_event ?c1"
    using Cons.prems by (simp_all add: coord_inv_stop_or_timed_out)
  have i2: "coord_inv fs clk opts ?c2" and s2: "\<not> stop_event ?c2"
    and r2: "stop_reason ?c2 \<noteq> ''idle_timeout''"
    using i1 s1 Cons.prems(3) by (simp_all add: coord_inv_batch_full)
  have i3: "coord_inv fs clk opts ?c3" and s3: "\<not> stop_event ?c3"
    using i2 s2 by (simp_all add: coord_inv_note_timeout)
  have i4: "coord_inv fs clk opts ?c4"
    using i3 by (rule drain_batch_inv)
  let ?E = "file_id fs ` {x \<in> set ps.
            evaluate_path fs x q True (content_only opts) mb (ext_match_or opts) \<noteq> None}"
  have fid: "future_ids fs ?f1 \<supseteq> future_ids fs futures \<union> file_id fs ` {x \<in> {p}. ?ev \<noteq> None}"
    using evaluate_path_Some [of fs p q True "content_only opts" mb "ext_match_or opts"]
    by (cases ?ev) auto
  have split: "file_id fs ` {x \<in> set (p # ps).
            evaluate_path fs x q True (content_only opts) mb (ext_match_or opts) \<noteq> None}
       = file_id fs ` {x \<in> {p}. ?ev \<noteq> None} \<union> ?E"
    by auto
  show ?case
  proof (cases "fst (stop_or_timed_out clk c)")
    case True
    then show ?thesis
      using timeout_noted [OF Cons.prems(1,2) True assms(4)]
      by (simp add: pooled_loop_Cons del: pooled_loop.simps)
  next
    case False
    show ?thesis
    proof (cases "fst (batch_full clk ?f1 ?c1)")
      case full: True
      show ?thesis
      proof (cases "stop_event ?c4 \<or> stop_reason ?c4 = ''idle_timeout''")
        case True
        then have d: "pooled_loop fs clk sched q opts mb (p # ps) futures k c = ([], Suc k, ?c4)"
          using False full by (simp add: pooled_loop_Cons Let_def del: pooled_loop.simps)
        show ?thesis
          unfolding d using True by auto
      next
        case cont: False
        have d: "pooled_loop fs clk sched q opts mb (p # ps) futures k c
                   = pooled_loop fs clk sched q opts mb ps [] (Suc k) ?c4"
          using False full cont by (simp add: pooled_loop_Cons Let_def del: pooled_loop.simps)
        have r3: "stop_reason ?c3 \<noteq> ''idle_timeout''"
          using cont drain_batch_stopped [of ?c3 fs clk opts "sched k ?f1"] by auto
        from drain_batch_cover [OF i3 r3, of "sched k ?f1"] cont
        have seen4: "seen_ids ?c4 = seen_ids ?c3 \<union> future_ids fs (sched k ?f1)" by blast
        have "future_ids fs (sched k ?f1) = future_ids fs ?f1"
          using assms(5) by (intro future_ids_cong) simp
        then have seen4': "seen_ids ?c4 = seen_ids c \<union> future_ids fs ?f1"
          using seen4 by simp
        have s4: "\<not> stop_event ?c4" and r4: "stop_reason ?c4 \<noteq> ''idle_timeout''"
          using cont by simp_all
        let ?R = "pooled_loop fs clk sched q opts mb ps [] (Suc k) ?c4"
        have "stop_event (snd (snd ?R)) \<or> stop_reason (snd (snd ?R)) = ''idle_timeout''
            \<or> seen_ids ?c4 \<union> ?E \<subseteq> seen_ids (snd (snd ?R)) \<union> future_ids fs (fst ?R)"
          using Cons.IH [OF i4 s4 r4, of "[]" "Suc k"] by simp
        then show ?thesis
          unfolding d split seen4' using fid by blast
      qed
    next
      case notfull: False
      have d: "pooled_loop fs clk sched q opts mb (p # ps) futures k c
                 = pooled_loop fs clk sched q opts mb ps ?f1 k ?c2"
        using False notfull by (simp add: pooled_loop_Cons Let_def del: pooled_loop.simps)
      let ?R = "pooled_loop fs clk sched q opts mb ps ?f1 k ?c2"
      have "seen_ids ?c2 = seen_ids c" by simp
      then have "stop_event (snd (snd ?R)) \<or> stop_reason (snd (snd ?R)) = ''idle_timeout''
            \<or> seen_ids c \<union> future_ids fs ?f1 \<union> ?E
                \<subseteq> seen_ids (snd (snd ?R)) \<union> future_ids fs (fst ?R)"
        using Cons.IH [OF i2 s2 r2, of ?f1 k] by simp
      then show ?thesis
        unfolding d split using fid by blast
    qed
  qed
qed

lemma coordinate_cover:
  assumes "(\<forall>i j. i \<le> j \<longrightarrow> clk i \<le> clk j) \<or> \<not> idle_configured opts"
    and "\<forall>k xs. set (sched k xs) = set xs"
  shows "stop_event (coordinate fs clk sched roots q opts)
     \<or> stop_reason (coordinate fs clk sched roots q opts) = ''idle_timeout''
     \<or> file_id fs ` set (eligible fs roots q opts) \<subseteq> seen_ids (coordinate fs clk sched roots q opts)"
proof -
  let ?c1 = "(snd (monotonic clk initial))\<lparr>idle_deadline :=
                    (if idle_configured opts then Some (fst (monotonic clk initial) + the (idle_timeout_sec opts))
                     else None)\<rparr>"
  let ?mb = "max_content_size_mb opts * 1024 * 1024"
  let ?files = "iter_files roots (follow_symlinks opts) (max_depth opts) (set (exclude_dirs opts))"
  have i: "coord_inv fs clk opts ?c1" and s: "\<not> stop_event ?c1"
    and r: "stop_reason ?c1 \<noteq> ''idle_timeout''"
    by (simp_all add: coord_inv_def initial_def monotonic_def emitted_paths_def)
  show ?thesis
  proof (cases "scan_content opts")
    case False
    have c: "coordinate fs clk sched roots q opts = fast_loop fs clk q opts ?mb ?files ?c1"
      using False by (simp add: coordinate_def Let_def split_beta)
    have e: "set (eligible fs roots q opts)
        = {p \<in> set ?files. evaluate_path fs p q False (content_only opts) ?mb (ext_match_or opts) \<noteq> None}"
      using False by (simp add: eligible_def)
    show ?thesis
      unfolding c e using fast_loop_cover [OF i s assms(1), of q ?mb ?files] by blast
  next
    case True
    let ?R = "pooled_loop fs clk sched q opts ?mb ?files [] 0 ?c1"
    let ?c2 = "snd (snd ?R)"
    let ?E = "file_id fs ` {p \<in> set ?files.
        evaluate_path fs p q True (content_only opts) ?mb (ext_match_or opts) \<noteq> None}"
    have c: "coordinate fs clk sched roots q opts
               = drain_final fs clk opts (sched (fst (snd ?R)) (fst ?R)) ?c2"
      using True by (simp add: coordinate_def Let_def split_beta)
    have e: "file_id fs ` set (eligible fs roots q opts) = ?E"
      using True by (simp add: eligible_def)
    have i2: "coord_inv fs clk opts ?c2"
      using i s by (rule pooled_loop_inv)
    have cov: "stop_event ?c2 \<or> stop_reason ?c2 = ''idle_timeout''
        \<or> ?E \<subseteq> seen_ids ?c2 \<union> future_ids fs (fst ?R)"
      using pooled_loop_cover [OF i s r assms, of q ?mb ?files "[]" 0] by blast
    have fi: "future_ids fs (sched (fst (snd ?R)) (fst ?R)) = future_ids fs (fst ?R)"
      using assms(2) by (intro future_ids_cong) simp
    let ?D = "drain_final fs clk opts (sched (fst (snd ?R)) (fst ?R)) ?c2"
    note dr = drain_final_cover [OF i2, of "sched (fst (snd ?R)) (fst ?R)", unfolded fi]
    have "stop_event ?D \<or> stop_reason ?D = ''idle_timeout'' \<or> ?E \<subseteq> seen_ids ?D"
    proof (cases "stop_event ?c2")
      case True
      then have "?D = ?c2" by (rule drain_final_stopped)
      then show ?thesis using True by simp
    next
      case False
      show ?thesis
      proof (cases "stop_event ?D")
        case True
        then show ?thesis by simp
      next
        case ns: False
        have sd: "seen_ids ?D = seen_ids ?c2 \<union> future_ids fs (fst ?R)"
          using dr [THEN conjunct1] ns by simp
        have rd: "stop_reason ?D = stop_reason ?c2"
          using dr [THEN conjunct2] ns by simp
        from cov False have "stop_reason ?c2 = ''idle_timeout''
            \<or> ?E \<subseteq> seen_ids ?c2 \<union> future_ids fs (fst ?R)" by simp
        then show ?thesis
          unfolding sd rd by simp
      qed
    qed
    then show ?thesis
      unfolding c e .
  qed
qed

lemma coord_inv_card:
  "coord_inv fs clk opts c \<Longrightarrow> int (card (seen_ids c)) = emitted_count c"
  using distinct_card [of "map (file_id fs) (emitted_paths c)"]
  by (simp add: coord_inv_def)

section \<open>The limit\<close>

text \<open>
  C2, as the specification states it: every call with \<open>limit >= 1\<close> over more than
  \<open>limit\<close> eligible files of different identity emits exactly \<open>limit\<close> results and
  stops with reason \<open>limit\<close>. With an idle timeout of one second and a clock that shows
  ten seconds at the first check, the search over four such files with \<open>limit = 2\<close>
  stops with reason \<open>idle_timeout\<close> and nothing emitted.
\<close>

theorem limit_preempted_counterexample:
  "1 \<le> limit (sample_options\<lparr>scan_content := False, limit := 2, idle_timeout_sec := Some 1\<rparr>)
   \<and> limit (sample_options\<lparr>scan_content := False, limit := 2, idle_timeout_sec := Some 1\<rparr>)
       < int (card (file_id sample_fs ` set (eligible sample_fs sample_roots dot_query
               (sample_options\<lparr>scan_content := False, limit := 2, idle_timeout_sec := Some 1\<rparr>))))
   \<and> emitted (out_stats (search sample_fs (\<lambda>n. 10 * real n) (\<lambda>k futs. futs) sample_roots dot_query
         (sample_options\<lparr>scan_content := False, limit := 2, idle_timeout_sec := Some 1\<rparr>))) = 0
   \<and> stopped_reason (out_stats (search sample_fs (\<lambda>n. 10 * real n) (\<lambda>k futs. futs) sample_roots
         dot_query (sample_options\<lparr>scan_content := False, limit := 2, idle_timeout_sec := Some 1\<rparr>)))
       = ''idle_timeout''"
  by code_simp

text \<open>
  C2, amended: for a call with \<open>limit >= 1\<close> over more than \<open>limit\<close> eligible files of
  different identity, where \<open>as_completed\<close> hands over every future of a batch and the
  clock does not go back, either the stop reason is \<open>idle_timeout\<close>, or exactly
  \<open>limit\<close> results are emitted and the stop reason is \<open>limit\<close>; the latter always holds
  when no idle timeout is configured. The emitted counter is the number of results
  delivered.
\<close>

theorem limit_reached:
  "1 \<le> limit opts
   \<and> limit opts < int (card (file_id fs ` set (eligible fs roots q opts)))
   \<and> (\<forall>k xs. set (sched k xs) = set xs)
   \<and> ((\<forall>i j. i \<le> j \<longrightarrow> clk i \<le> clk j) \<or> \<not> idle_configured opts)
   \<longrightarrow> (stopped_reason (out_stats (search fs clk sched roots q opts)) = ''idle_timeout''
        \<or> (emitted (out_stats (search fs clk sched roots q opts)) = limit opts
            \<and> stopped_reason (out_stats (search fs clk sched roots q opts)) = ''limit''))
       \<and> (\<not> idle_configured opts \<longrightarrow>
            emitted (out_stats (search fs clk sched roots q opts)) = limit opts
            \<and> stopped_reason (out_stats (search fs clk sched roots q opts)) = ''limit'')
       \<and> int (length (out_results (search fs clk sched roots q opts))
              + length (out_streamed (search fs clk sched roots q opts)))
           = emitted (out_stats (search fs clk sched roots q opts))"
proof (intro impI, elim conjE)
  assume l: "1 \<le> limit opts"
    and many: "limit opts < int (card (file_id fs ` set (eligible fs roots q opts)))"
    and perm: "\<forall>k xs. set (sched k xs) = set xs"
    and mono: "(\<forall>i j. i \<le> j \<longrightarrow> clk i \<le> clk j) \<or> \<not> idle_configured opts"
  let ?c = "coordinate fs clk sched roots q opts"
  have inv: "coord_inv fs clk opts ?c" by (rule coordinate_inv)
  note i = inv [unfolded coord_inv_def]
  have m: "max 1 (limit opts) = limit opts" using l by simp
  have lim: "if stop_event ?c then emitted_count ?c = limit opts else emitted_count ?c < limit opts"
    using i unfolding m by blast
  have sr: "stop_event ?c \<longleftrightarrow> stop_reason ?c = ''limit''" using i by blast
  have nc: "idle_configured opts \<or> stop_reason ?c \<noteq> ''idle_timeout''" using i by blast
  have len: "emitted_count ?c = int (length (results ?c) + length (streamed ?c))"
    using i by (simp add: emitted_paths_def)
  have stop: "stop_event ?c" if "stop_reason ?c \<noteq> ''idle_timeout''"
  proof (rule ccontr)
    assume ns: "\<not> stop_event ?c"
    then have sub: "file_id fs ` set (eligible fs roots q opts) \<subseteq> seen_ids ?c"
      using coordinate_cover [OF mono perm, of fs roots q] that by blast
    have "finite (seen_ids ?c)" using i by simp
    then have "card (file_id fs ` set (eligible fs roots q opts)) \<le> card (seen_ids ?c)"
      using sub by (rule card_mono)
    then have "int (card (file_id fs ` set (eligible fs roots q opts))) \<le> emitted_count ?c"
      using coord_inv_card [OF inv] by simp
    then show False using many lim ns by simp
  qed
  have a: "stop_reason ?c = ''idle_timeout''
        \<or> (emitted_count ?c = limit opts \<and> stop_reason ?c = ''limit'')"
    using stop lim sr by (cases "stop_event ?c") auto
  have b: "emitted_count ?c = limit opts \<and> stop_reason ?c = ''limit''" if "\<not> idle_configured opts"
    using a nc that by simp
  show "(stopped_reason (out_stats (search fs clk sched roots q opts)) = ''idle_timeout''
        \<or> (emitted (out_stats (search fs clk sched roots q opts)) = limit opts
            \<and> stopped_reason (out_stats (search fs clk sched roots q opts)) = ''limit''))
       \<and> (\<not> idle_configured opts \<longrightarrow>
            emitted (out_stats (search fs clk sched roots q opts)) = limit opts
            \<and> stopped_reason (out_stats (search fs clk sched roots q opts)) = ''limit'')
       \<and> int (length (out_results (search fs clk sched roots q opts))
              + length (out_streamed (search fs clk sched roots q opts)))
           = emitted (out_stats (search fs clk sched roots q opts))"
    unfolding search_fields using a b len by simp
qed

theorem limit_reached_witness:
  "emitted (out_stats (search sample_fs (\<lambda>n. real n) (\<lambda>k futs. futs) sample_roots dot_query
         (sample_options\<lparr>scan_content := False, limit := 2\<rparr>))) = 2
   \<and> stopped_reason (out_stats (search sample_fs (\<lambda>n. real n) (\<lambda>k futs. futs) sample_roots dot_query
         (sample_options\<lparr>scan_content := False, limit := 2\<rparr>))) = ''limit''
   \<and> card (file_id sample_fs ` set (eligible sample_fs sample_roots dot_query
               (sample_options\<lparr>scan_content := False, limit := 2\<rparr>))) = 4"
proof -
  let ?o = "sample_options\<lparr>scan_content := False, limit := 2\<rparr>"
  have c: "card (file_id sample_fs ` set (eligible sample_fs sample_roots dot_query ?o)) = 4"
    by code_simp
  have h: "1 \<le> limit ?o
      \<and> limit ?o < int (card (file_id sample_fs ` set (eligible sample_fs sample_roots dot_query ?o)))
      \<and> (\<forall>k xs. set ((\<lambda>k futs. futs) k xs) = set (xs :: future list))
      \<and> ((\<forall>i j. i \<le> j \<longrightarrow> (\<lambda>n. real n) i \<le> (\<lambda>n. real n) j) \<or> \<not> idle_configured ?o)"
    unfolding c by (simp add: sample_options_def)
  have n: "\<not> idle_configured ?o"
    by (simp add: idle_configured_def sample_options_def)
  note t = limit_reached [of ?o sample_fs sample_roots dot_query "\<lambda>k futs. futs" "\<lambda>n. real n",
      rule_format, OF h]
  have "emitted (out_stats (search sample_fs (\<lambda>n. real n) (\<lambda>k futs. futs) sample_roots dot_query ?o))
          = limit ?o
      \<and> stopped_reason (out_stats (search sample_fs (\<lambda>n. real n) (\<lambda>k futs. futs) sample_roots
            dot_query ?o)) = ''limit''"
    using t [THEN conjunct2, THEN conjunct1] n by blast
  then show ?thesis using c by simp
qed

end
